theory Spec2Isabelle
  imports Complex_Main
begin

section \<open>Go integers and formatting\<close>

text \<open>
  The flags \<open>numberOfUsers\<close>, \<open>userBatches\<close> and \<open>threadCount\<close> are Go \<open>int\<close>s, 64 bits
  wide on the platforms the load test runs on. Arithmetic on flag values is modelled on
  \<open>int\<close> with the two's-complement wrap-around written out (\<open>go_int\<close>). The counters
  of events (\<open>Count\<close>, the failure counters) grow by one per event and the accumulators
  by the nanoseconds of one attempt; no run brings them near \<open>2 ^ 63\<close>, and they are
  modelled on \<open>int\<close> without wrap-around.
\<close>

definition go_int :: "int \<Rightarrow> int" where
  "go_int x = (x + 2 ^ 63) mod 2 ^ 64 - 2 ^ 63"

definition is_int :: "int \<Rightarrow> bool" where
  "is_int x = (- (2 ^ 63) \<le> x \<and> x < 2 ^ 63)"

text \<open>Go's \<open>%\<close> truncates towards zero: the result has the sign of the dividend.
  The divisor 0 panics; callers check it before.\<close>

definition go_rem :: "int \<Rightarrow> int \<Rightarrow> int" where
  "go_rem a b = sgn a * (\<bar>a\<bar> mod \<bar>b\<bar>)"

definition digit_char :: "nat \<Rightarrow> char" where
  "digit_char d = ''0123456789'' ! d"

fun digits :: "nat \<Rightarrow> string" where
  "digits n = (if n < 10 then [digit_char n] else digits (n div 10) @ [digit_char (n mod 10)])"

declare digits.simps [simp del]

definition pad0 :: "nat \<Rightarrow> string \<Rightarrow> string" where
  "pad0 w s = replicate (w - length s) (CHR ''0'') @ s"

text \<open>\<open>fmt.Sprintf("%d", i)\<close> and \<open>fmt.Sprintf("%04d", i)\<close>: the width of the padded form
  counts the sign, and the zeros stand after it.\<close>

definition fmt_d :: "int \<Rightarrow> string" where
  "fmt_d i = (if i < 0 then CHR ''-'' # digits (nat (- i)) else digits (nat i))"

definition fmt_04d :: "int \<Rightarrow> string" where
  "fmt_04d i = (if i < 0 then CHR ''-'' # pad0 3 (digits (nat (- i))) else pad0 4 (digits (nat i)))"

section \<open>Process outcomes\<close>

text \<open>
  \<open>Fatal\<close>: \<open>klog.Fatal*\<close> logged the message and the process exited.
  \<open>Panic\<close>: a Go runtime panic ended the process.
  \<open>OutOfMemory\<close>: the Go runtime could not get the memory of an allocation from the
  machine and ended the process.
  \<open>Deadlock\<close>: a goroutine blocks for ever on a channel send that nobody will receive.
\<close>

datatype abort = Fatal string | Panic string | OutOfMemory | Deadlock

section \<open>Allocations\<close>

text \<open>
  \<open>make\<close> of a slice or of a channel buffer, as Go's runtime does it (\<open>makeslice\<close>
  in \<open>runtime/slice.go\<close>, \<open>makechan\<close> in \<open>runtime/chan.go\<close>). An \<open>int\<close>, an \<open>int64\<close>
  and a \<open>time.Duration\<close> take 8 bytes each. The runtime panics when the length is
  negative or the size in bytes is beyond \<open>maxAlloc\<close>, which is \<open>2 ^ 48\<close> bytes where the
  address space is largest (64-bit Linux); for a channel the header of \<open>hchanSize\<close> = 96
  bytes counts too. Below that limit the machine decides: \<open>available\<close> is the largest
  number of elements for which the runtime gets the memory at the time of the call, and
  a larger request ends the process with \<open>fatal error: out of memory\<close>.
\<close>

definition maxAlloc :: int where
  "maxAlloc = 2 ^ 48"

definition hchanSize :: int where
  "hchanSize = 96"

definition makeslice :: "int \<Rightarrow> int \<Rightarrow> abort + unit" where
  "makeslice available n =
     (if n < 0 \<or> maxAlloc < 8 * n then Inl (Panic ''makeslice: len out of range'')
      else if available < n then Inl OutOfMemory
      else Inr ())"

definition makechan :: "int \<Rightarrow> int \<Rightarrow> abort + unit" where
  "makechan available n =
     (if n < 0 \<or> maxAlloc - hchanSize < 8 * n
      then Inl (Panic ''makechan: size out of range'')
      else if available < n then Inl OutOfMemory
      else Inr ())"

text \<open>
  \<open>sync.WaitGroup\<close> keeps its counter in the high 32 bits of its state: \<open>Add(delta)\<close>
  on a fresh group leaves the low 32 bits of \<open>delta\<close>, read as a signed number, and
  panics when that is negative.
\<close>

definition wgCounter :: "int \<Rightarrow> int" where
  "wgCounter delta = (delta + 2 ^ 31) mod 2 ^ 32 - 2 ^ 31"

section \<open>The error accumulator\<close>

record ErrorOccurrence =
  ErrorNumber :: int
  LatestMessage :: string
  Count :: int

type_synonym error_map = "int \<rightharpoonup> ErrorOccurrence"

text \<open>\<open>logError\<close>, lines 143 to 165. With \<open>failFast\<close> the call to \<open>klog.Fatalln\<close> ends
  the process before the map is touched. The mutex makes each call one atomic step, so a
  run's calls form a sequence.\<close>

definition logError :: "bool \<Rightarrow> int \<Rightarrow> string \<Rightarrow> error_map \<Rightarrow> abort + error_map" where
  "logError failFast errCode message m =
     (let msg = ''Error #'' @ fmt_d errCode @ '': '' @ message in
      if failFast then Inl (Fatal msg)
      else (case m errCode of
              Some errorOccurrence \<Rightarrow>
                Inr (m(errCode \<mapsto> errorOccurrence\<lparr>Count := Count errorOccurrence + 1,
                                                  LatestMessage := message\<rparr>))
            | None \<Rightarrow>
                Inr (m(errCode \<mapsto> \<lparr>ErrorNumber = errCode, LatestMessage = message, Count = 1\<rparr>))))"

text \<open>A finite sequence of calls, each given as (code, message).\<close>

fun logErrors :: "bool \<Rightarrow> (int \<times> string) list \<Rightarrow> error_map \<Rightarrow> abort + error_map" where
  "logErrors failFast [] m = Inr m"
| "logErrors failFast (c # cs) m =
     (case logError failFast (fst c) (snd c) m of
        Inl a \<Rightarrow> Inl a
      | Inr m' \<Rightarrow> logErrors failFast cs m')"

definition calls_with :: "int \<Rightarrow> (int \<times> string) list \<Rightarrow> (int \<times> string) list" where
  "calls_with c calls = filter (\<lambda>e. fst e = c) calls"

section \<open>Configuration and collaborators\<close>

text \<open>The command-line flags read by the load test (lines 34 to 46 and 131 to 140).\<close>

record config =
  usernamePrefix :: string
  numberOfUsers :: int
  userBatches :: int
  waitPipelines :: bool
  failFast :: bool
  threadCount :: int

text \<open>
  What a pipeline-run lookup shows of the run: whether it is done, the completion time
  minus the creation time in nanoseconds, and the \<open>Succeeded\<close> condition.
\<close>

record pipelineRun =
  IsDone :: bool
  RunTime :: int
  SucceededIsFalse :: bool
  Reason :: string
  Message :: string

text \<open>
  The cluster and the clock are outside the program. Every call a worker makes to them is
  identified by the thread index and the loop indices at the call, so one function per
  call site, from these indices and the arguments passed to the returned value, describes
  any behaviour of the outside world during one run. An error is returned as its text;
  \<open>None\<close> is Go's \<open>nil\<close> error. A duration is a number of nanoseconds.
  \<open>GetComponentPipelineRun\<close> gives the lookups that \<open>k8swait.Poll\<close> makes for one user
  before its timeout, in order.
  \<open>time.Sleep\<close> pauses for at least the time asked for: \<open>time_Sleep_excess\<close> is the
  time, not negative, by which the sleep made for member \<open>i\<close> at line 480 exceeds its
  second, and \<open>ResourceCreationTime\<close> is the rest of the time elapsed at line 484, the
  time spent outside the sleeps. \<open>chanMemory\<close> is the largest size for which the
  runtime gets the memory of the two channels of a worker when that worker starts.
\<close>

record collab =
  users_Create :: "int \<Rightarrow> int \<Rightarrow> string \<Rightarrow> string option"
  wait_ForNamespace :: "int \<Rightarrow> int \<Rightarrow> int \<Rightarrow> string \<Rightarrow> string option"
  UserCreationTime :: "int \<Rightarrow> int \<Rightarrow> int"
  CreateRegistryAuthSecret :: "int \<Rightarrow> int \<Rightarrow> string \<Rightarrow> string \<Rightarrow> string option"
  CreateHasApplication :: "int \<Rightarrow> int \<Rightarrow> string \<Rightarrow> string \<Rightarrow> string option"
  ApplicationGitopsRepoExists :: "int \<Rightarrow> int \<Rightarrow> string \<Rightarrow> string option"
  CreateComponent :: "int \<Rightarrow> int \<Rightarrow> string \<Rightarrow> string \<Rightarrow> string \<Rightarrow> string + string"
  ResourceCreationTime :: "int \<Rightarrow> int \<Rightarrow> int"
  time_Sleep_excess :: "int \<Rightarrow> int \<Rightarrow> int \<Rightarrow> nat"
  GetComponentPipelineRun :: "int \<Rightarrow> int \<Rightarrow> string \<Rightarrow> string \<Rightarrow> string \<Rightarrow> (string + pipelineRun) list"
  RegistryAuthSecretName :: string
  DefaultTimeout :: string
  chanMemory :: "int \<Rightarrow> int"

section \<open>The worker pipeline\<close>

text \<open>
  A worker reads and writes slot \<open>threadIndex\<close> of each of the six global arrays and no
  other slot, so its state holds the values of its own slots, the shared error map, and
  the values sent so far on its two channels, oldest first.
\<close>

record worker =
  AverageUserCreationTime :: int
  AverageResourceCreationTimePerUser :: int
  AveragePipelineRunTimePerUser :: int
  FailedUserCreations :: int
  FailedResourceCreations :: int
  FailedPipelineRuns :: int
  errorOccurredMap :: error_map
  chUsers :: "int list"
  chPipelines :: "int list"

definition userNumber :: "config \<Rightarrow> int \<Rightarrow> int \<Rightarrow> int" where
  "userNumber cfg threadIndex userIndex =
     go_int (go_int (threadIndex * numberOfUsers cfg) + userIndex)"

text \<open>\<open>fmt.Sprintf("%s-%04d", usernamePrefix, threadIndex*numberOfUsers+userIndex)\<close>\<close>

definition username :: "config \<Rightarrow> int \<Rightarrow> int \<Rightarrow> string" where
  "username cfg threadIndex userIndex =
     usernamePrefix cfg @ ''-'' @ fmt_04d (userNumber cfg threadIndex userIndex)"

definition quoted :: "string \<Rightarrow> string" where
  "quoted s = CHR 0x27 # s @ [CHR 0x27]"

text \<open>The body of a \<open>for\<close> loop, run on each element in turn; an abort ends the loop.\<close>

fun forEach :: "('a \<Rightarrow> 's \<Rightarrow> abort + 's) \<Rightarrow> 'a list \<Rightarrow> 's \<Rightarrow> abort + 's" where
  "forEach body [] s = Inr s"
| "forEach body (x # xs) s =
     (case body x s of Inl a \<Rightarrow> Inl a | Inr s' \<Rightarrow> forEach body xs s')"

subsection \<open>Stage 1: users (lines 397 to 424)\<close>

definition failUser :: "config \<Rightarrow> int \<Rightarrow> string \<Rightarrow> worker \<Rightarrow> abort + worker" where
  "failUser cfg errCode message w =
     (case logError (failFast cfg) errCode message (errorOccurredMap w) of
        Inl a \<Rightarrow> Inl a
      | Inr m \<Rightarrow> Inr (w\<lparr>errorOccurredMap := m, FailedUserCreations := FailedUserCreations w + 1\<rparr>))"

text \<open>
  The inner loop of lines 408 to 416 over \<open>i\<close>. The namespace is formatted from
  \<open>userIndex\<close>, as line 409 does. The result \<open>False\<close> is \<open>continue UserLoop\<close>.
\<close>

fun batchLoop ::
  "config \<Rightarrow> collab \<Rightarrow> int \<Rightarrow> int \<Rightarrow> int list \<Rightarrow> worker \<Rightarrow> abort + (bool \<times> worker)" where
  "batchLoop cfg env threadIndex userIndex [] w = Inr (True, w)"
| "batchLoop cfg env threadIndex userIndex (i # rest) w =
     (let usernamespace = usernamePrefix cfg @ ''-''
            @ fmt_04d (userNumber cfg threadIndex userIndex) @ ''-tenant'' in
      case wait_ForNamespace env threadIndex userIndex i usernamespace of
        Some err \<Rightarrow>
          (case failUser cfg 2 (''Unable to find namespace '' @ quoted usernamespace
                  @ '' within '' @ DefaultTimeout env @ '': '' @ err) w of
             Inl a \<Rightarrow> Inl a
           | Inr w' \<Rightarrow> Inr (False, w'))
      | None \<Rightarrow> batchLoop cfg env threadIndex userIndex rest (w\<lparr>chUsers := chUsers w @ [i]\<rparr>))"

text \<open>The readiness check that the inner loop makes for member \<open>i\<close> passed.\<close>

definition nsReady :: "config \<Rightarrow> collab \<Rightarrow> int \<Rightarrow> int \<Rightarrow> int \<Rightarrow> bool" where
  "nsReady cfg env threadIndex userIndex i =
     (wait_ForNamespace env threadIndex userIndex i
        (usernamePrefix cfg @ ''-'' @ fmt_04d (userNumber cfg threadIndex userIndex)
           @ ''-tenant'') = None)"

text \<open>One iteration of \<open>UserLoop\<close>.\<close>

definition userStep :: "config \<Rightarrow> collab \<Rightarrow> int \<Rightarrow> int \<Rightarrow> worker \<Rightarrow> abort + worker" where
  "userStep cfg env threadIndex userIndex w =
     (case users_Create env threadIndex userIndex (username cfg threadIndex userIndex) of
        Some err \<Rightarrow>
          failUser cfg 1 (''Unable to provision user ''
             @ quoted (username cfg threadIndex userIndex) @ '': '' @ err) w
      | None \<Rightarrow>
          if userBatches cfg = 0 then Inl (Panic ''integer divide by zero'')
          else if go_rem userIndex (userBatches cfg) = 0 then
            (case batchLoop cfg env threadIndex userIndex
                    [go_int (go_int (userIndex - userBatches cfg) + 1) .. userIndex] w of
               Inl a \<Rightarrow> Inl a
             | Inr (completed, w') \<Rightarrow>
                 if completed
                 then Inr (w'\<lparr>AverageUserCreationTime :=
                            AverageUserCreationTime w' + UserCreationTime env threadIndex userIndex\<rparr>)
                 else Inr w')
          else Inr (w\<lparr>AverageUserCreationTime :=
                        AverageUserCreationTime w + UserCreationTime env threadIndex userIndex\<rparr>))"

definition stage1 :: "config \<Rightarrow> collab \<Rightarrow> int \<Rightarrow> worker \<Rightarrow> abort + worker" where
  "stage1 cfg env threadIndex w =
     forEach (userStep cfg env threadIndex) [1 .. numberOfUsers cfg] w"

subsection \<open>Stage 2: resources (lines 426 to 491)\<close>

definition failResource :: "config \<Rightarrow> int \<Rightarrow> string \<Rightarrow> worker \<Rightarrow> abort + worker" where
  "failResource cfg errCode message w =
     (case logError (failFast cfg) errCode message (errorOccurredMap w) of
        Inl a \<Rightarrow> Inl a
      | Inr m \<Rightarrow> Inr (w\<lparr>errorOccurredMap := m,
                        FailedResourceCreations := FailedResourceCreations w + 1\<rparr>))"

text \<open>
  \<open>chPipelines <- userIndex\<close> on the channel of capacity \<open>numberOfUsers\<close>. Stage 3 is the
  only receiver and exists only with \<open>waitPipelines\<close>; without it nothing ever leaves the
  buffer, and a send on the full buffer blocks for ever.
\<close>

definition sendPipelines :: "config \<Rightarrow> int \<Rightarrow> worker \<Rightarrow> abort + worker" where
  "sendPipelines cfg userIndex w =
     (if \<not> waitPipelines cfg \<and> numberOfUsers cfg \<le> int (length (chPipelines w))
      then Inl Deadlock
      else Inr (w\<lparr>chPipelines := chPipelines w @ [userIndex]\<rparr>))"

text \<open>
  Lines 478 to 483: for a user whose index is a multiple of the batch size, one sleep of
  a second for each \<open>i\<close> from \<open>userIndex - userBatches + 1\<close> to \<open>userIndex\<close>. The result
  is the time these sleeps take, in nanoseconds.
\<close>

definition sleeps :: "config \<Rightarrow> collab \<Rightarrow> int \<Rightarrow> int \<Rightarrow> int" where
  "sleeps cfg env threadIndex userIndex =
     (if go_rem userIndex (userBatches cfg) = 0
      then sum_list (map (\<lambda>i. 1000000000 + int (time_Sleep_excess env threadIndex userIndex i))
             [go_int (go_int (userIndex - userBatches cfg) + 1) .. userIndex])
      else 0)"

text \<open>
  One iteration of the loop over \<open>chUsers\<close>. The time added at line 485 is the time
  elapsed since line 428: the time of the sleeps and the time spent outside them. The
  container image passed to \<open>CreateComponent\<close> holds a fresh UUID and is left to the
  collaborator.
\<close>

definition resourceStep :: "config \<Rightarrow> collab \<Rightarrow> int \<Rightarrow> int \<Rightarrow> worker \<Rightarrow> abort + worker" where
  "resourceStep cfg env threadIndex userIndex w =
     (let uname = username cfg threadIndex userIndex;
          usernamespace = uname @ ''-tenant'';
          ApplicationName = uname @ ''-app'';
          ComponentName = uname @ ''-component'' in
      case CreateRegistryAuthSecret env threadIndex userIndex (RegistryAuthSecretName env) usernamespace of
        Some errors \<Rightarrow>
          failResource cfg 3 (''Unable to create the secret '' @ RegistryAuthSecretName env
             @ '' in namespace '' @ usernamespace @ '': '' @ errors) w
      | None \<Rightarrow>
     (case CreateHasApplication env threadIndex userIndex ApplicationName usernamespace of
        Some err \<Rightarrow>
          failResource cfg 4 (''Unable to create the Application '' @ ApplicationName
             @ '': '' @ err) w
      | None \<Rightarrow>
     (case ApplicationGitopsRepoExists env threadIndex userIndex ApplicationName of
        Some err \<Rightarrow>
          failResource cfg 5 (''Unable to create application '' @ ApplicationName
             @ '' gitops repo within 1m0s: '' @ err) w
      | None \<Rightarrow>
     (case CreateComponent env threadIndex userIndex ApplicationName ComponentName usernamespace of
        Inl err \<Rightarrow>
          failResource cfg 6 (''Unable to create the Component '' @ ComponentName
             @ '': '' @ err) w
      | Inr componentName \<Rightarrow>
          if componentName \<noteq> ComponentName
          then failResource cfg 7 (''Actual component name ('' @ componentName
                 @ '') does not match expected ('' @ ComponentName @ ''): <nil>'') w
          else if userBatches cfg = 0 then Inl (Panic ''integer divide by zero'')
          else sendPipelines cfg userIndex
                 (w\<lparr>AverageResourceCreationTimePerUser :=
                      AverageResourceCreationTimePerUser w
                        + (ResourceCreationTime env threadIndex userIndex
                           + sleeps cfg env threadIndex userIndex)\<rparr>)))))"

definition stage2 :: "config \<Rightarrow> collab \<Rightarrow> int \<Rightarrow> worker \<Rightarrow> abort + worker" where
  "stage2 cfg env threadIndex w = forEach (resourceStep cfg env threadIndex) (chUsers w) w"

subsection \<open>Stage 3: pipelines (lines 493 to 526)\<close>

definition failPipeline :: "config \<Rightarrow> int \<Rightarrow> string \<Rightarrow> worker \<Rightarrow> abort + worker" where
  "failPipeline cfg errCode message w =
     (case logError (failFast cfg) errCode message (errorOccurredMap w) of
        Inl a \<Rightarrow> Inl a
      | Inr m \<Rightarrow> Inr (w\<lparr>errorOccurredMap := m, FailedPipelineRuns := FailedPipelineRuns w + 1\<rparr>))"

text \<open>
  \<open>k8swait.Poll\<close> with the condition of lines 502 to 517, over the lookups made before
  the timeout. A failed lookup and a run that is not done poll again. The result \<open>True\<close>
  is the \<open>nil\<close> error, \<open>False\<close> the timeout.
\<close>

fun pollLoop ::
  "config \<Rightarrow> string \<Rightarrow> string \<Rightarrow> (string + pipelineRun) list \<Rightarrow> worker \<Rightarrow> abort + (bool \<times> worker)" where
  "pollLoop cfg ApplicationName ComponentName [] w = Inr (False, w)"
| "pollLoop cfg ApplicationName ComponentName (lookup # rest) w =
     (case lookup of
        Inl err \<Rightarrow> pollLoop cfg ApplicationName ComponentName rest w
      | Inr run \<Rightarrow>
          if IsDone run then
            (let w1 = w\<lparr>AveragePipelineRunTimePerUser :=
                          AveragePipelineRunTimePerUser w + RunTime run\<rparr> in
             if SucceededIsFalse run then
               (case failPipeline cfg 8 (''Pipeline run for '' @ ApplicationName @ ''/''
                       @ ComponentName @ '' failed due to '' @ Reason run @ '': ''
                       @ Message run) w1 of
                  Inl a \<Rightarrow> Inl a
                | Inr w2 \<Rightarrow> Inr (True, w2))
             else Inr (True, w1))
          else pollLoop cfg ApplicationName ComponentName rest w)"

definition pipelineStep :: "config \<Rightarrow> collab \<Rightarrow> int \<Rightarrow> int \<Rightarrow> worker \<Rightarrow> abort + worker" where
  "pipelineStep cfg env threadIndex userIndex w =
     (let uname = username cfg threadIndex userIndex;
          usernamespace = uname @ ''-tenant'';
          ComponentName = uname @ ''-component'';
          ApplicationName = uname @ ''-app'' in
      case pollLoop cfg ApplicationName ComponentName
             (GetComponentPipelineRun env threadIndex userIndex ComponentName ApplicationName
                usernamespace) w of
        Inl a \<Rightarrow> Inl a
      | Inr (done, w') \<Rightarrow>
          if done then Inr w'
          else failPipeline cfg 9 (''Pipeline run for '' @ ApplicationName @ ''/''
                 @ ComponentName
                 @ '' failed to succeed within 1h0m0s: timed out waiting for the condition'') w')"

definition stage3 :: "config \<Rightarrow> collab \<Rightarrow> int \<Rightarrow> worker \<Rightarrow> abort + worker" where
  "stage3 cfg env threadIndex w = forEach (pipelineStep cfg env threadIndex) (chPipelines w) w"

subsection \<open>The worker (lines 385 to 529)\<close>

text \<open>
  The stages of one worker are goroutines joined by \<open>wg.Wait()\<close>. Each stage reads its
  channel in the order of the sends, and what a stage does with an element depends on
  that element and the collaborators only, so the final state is that of running stage 1
  to its end, then stage 2 on everything sent on \<open>chUsers\<close>, then stage 3 on everything
  sent on \<open>chPipelines\<close>. The result \<open>Inr\<close> is the worker reaching \<open>threadsWG.Done()\<close>.
  When an error ends the process, which error comes first depends on how the stages
  interleave; the result \<open>Inl\<close> carries the first one in the order of the stages.
  Lines 386 and 387 allocate the two channels first, each with a buffer of
  \<open>numberOfUsers\<close> elements; a worker whose channels cannot be allocated ends the process
  before it creates a user.
\<close>

definition userJourneyThread :: "config \<Rightarrow> collab \<Rightarrow> int \<Rightarrow> worker \<Rightarrow> abort + worker" where
  "userJourneyThread cfg env threadIndex w =
     (case makechan (chanMemory env threadIndex) (numberOfUsers cfg) of
        Inl a \<Rightarrow> Inl a
      | Inr _ \<Rightarrow>
     (case stage1 cfg env threadIndex (w\<lparr>chUsers := [], chPipelines := []\<rparr>) of
        Inl a \<Rightarrow> Inl a
      | Inr w1 \<Rightarrow>
     (case stage2 cfg env threadIndex w1 of
        Inl a \<Rightarrow> Inl a
      | Inr w2 \<Rightarrow> if waitPipelines cfg then stage3 cfg env threadIndex w2 else Inr w2)))"

section \<open>The orchestrator (lines 174 to 383)\<close>

text \<open>What the run needs from outside before it provisions users: an error text where
  the call can fail. \<open>sliceMemory\<close> is the largest length for which the runtime gets the
  memory of the six arrays of lines 272 to 277.\<close>

record startup =
  os_Create :: "string option"
  fs_Set :: "string \<Rightarrow> string \<Rightarrow> string option"
  logConsole :: bool
  framework_NewFramework :: "string option"
  auth_GetTokenFromOC :: "string option"
  auth_GetTokenRequestURI :: "string + string"
  sliceMemory :: int

definition setKlogFlag :: "startup \<Rightarrow> string \<Rightarrow> string \<Rightarrow> abort + unit" where
  "setKlogFlag st name v =
     (case fs_Set st name v of
        Some err \<Rightarrow> Inl (Fatal (''Unable to set klog flag '' @ name @ '': '' @ err))
      | None \<Rightarrow> Inr ())"

text \<open>Lines 185 to 219: the log file, the klog flags, the check of the batch size, the
  framework and the token. The token is never set by a flag, so it is always fetched.\<close>

definition initialize :: "config \<Rightarrow> startup \<Rightarrow> abort + unit" where
  "initialize cfg st =
     (case os_Create st of
        Some err \<Rightarrow> Inl (Fatal (''Error creating log file: '' @ err))
      | None \<Rightarrow>
     (case setKlogFlag st ''log_file'' ''load-tests.log'' of Inl a \<Rightarrow> Inl a | Inr _ \<Rightarrow>
     (case setKlogFlag st ''logtostderr'' ''false'' of Inl a \<Rightarrow> Inl a | Inr _ \<Rightarrow>
     (case setKlogFlag st ''alsologtostderr'' (if logConsole st then ''true'' else ''false'') of
        Inl a \<Rightarrow> Inl a
      | Inr _ \<Rightarrow>
          if userBatches cfg = 0 then Inl (Panic ''integer divide by zero'')
          else if go_rem (numberOfUsers cfg) (userBatches cfg) \<noteq> 0
          then Inl (Fatal ''Please Provide Correct Batches!'')
          else
            (case framework_NewFramework st of
               Some err \<Rightarrow> Inl (Fatal (''error creating client-go '' @ err))
             | None \<Rightarrow>
            (case auth_GetTokenFromOC st of
               None \<Rightarrow> Inr ()
             | Some _ \<Rightarrow>
                 (case auth_GetTokenRequestURI st of
                    Inl err \<Rightarrow> Inl (Fatal (''a token is required to capture metrics, use oc login to log into the cluster: '' @ err))
                  | Inr tokenRequestURI \<Rightarrow> Inl (Fatal (''a token is required to capture metrics, use oc login to log into the cluster. alternatively request a token and use the token flag: '' @ tokenRequestURI)))))))))"

text \<open>
  Lines 272 to 283: the arrays of length \<open>threadCount\<close>, \<open>threadsWG.Add(threadCount)\<close>,
  then one \<open>go userJourneyThread\<close> for each value of \<open>thread\<close> that the loop takes. The
  result lists the thread indices of the workers spawned. The metrics gatherer and the
  progress bars set up in between are collaborators that do not touch the run's data;
  they are left out.
\<close>

definition spawn :: "config \<Rightarrow> startup \<Rightarrow> abort + int list" where
  "spawn cfg st =
     (case initialize cfg st of
        Inl a \<Rightarrow> Inl a
      | Inr _ \<Rightarrow>
          (case makeslice (sliceMemory st) (threadCount cfg) of
             Inl a \<Rightarrow> Inl a
           | Inr _ \<Rightarrow>
               if wgCounter (threadCount cfg) < 0
               then Inl (Panic ''sync: negative WaitGroup counter'')
               else Inr [0 .. threadCount cfg - 1]))"

definition newWorker :: "error_map \<Rightarrow> worker" where
  "newWorker m = \<lparr>AverageUserCreationTime = 0, AverageResourceCreationTimePerUser = 0,
     AveragePipelineRunTimePerUser = 0, FailedUserCreations = 0, FailedResourceCreations = 0,
     FailedPipelineRuns = 0, errorOccurredMap = m, chUsers = [], chPipelines = []\<rparr>"

text \<open>
  The workers run concurrently. They share the error map only, and there each \<open>logError\<close>
  is one step under the mutex; the run below takes the workers' steps thread after thread,
  which is one of the possible orders. The result is the list of the workers' final
  states, in the order of the thread indices, after \<open>threadsWG.Wait()\<close>.
\<close>

fun runThreads :: "config \<Rightarrow> collab \<Rightarrow> int list \<Rightarrow> error_map \<Rightarrow> abort + worker list" where
  "runThreads cfg env [] m = Inr []"
| "runThreads cfg env (thread # rest) m =
     (case userJourneyThread cfg env thread (newWorker m) of
        Inl a \<Rightarrow> Inl a
      | Inr w \<Rightarrow>
          (case runThreads cfg env rest (errorOccurredMap w) of
             Inl a \<Rightarrow> Inl a
           | Inr ws \<Rightarrow> Inr (w # ws)))"

text \<open>\<open>int(d.Seconds())\<close>: the whole seconds of a duration, truncated towards zero.\<close>

definition wholeSeconds :: "int \<Rightarrow> int" where
  "wholeSeconds d = sgn d * (\<bar>d\<bar> div 1000000000)"

text \<open>\<open>float64(avg) / float64(count)\<close> is not a number when \<open>count\<close> is 0.\<close>

definition averageDurationFromArray :: "int list \<Rightarrow> int \<Rightarrow> real option" where
  "averageDurationFromArray duration count =
     (let avg = fold (\<lambda>i avg. avg + wholeSeconds i) duration 0 in
      if count = 0 then None else Some (real_of_int avg / real_of_int count))"

definition sumFromArray :: "int list \<Rightarrow> int" where
  "sumFromArray array = fold (\<lambda>i sum. sum + i) array 0"

definition percentage :: "int \<Rightarrow> int \<Rightarrow> real option" where
  "percentage failures count =
     (if count = 0 then None else Some (100 * real_of_int failures / real_of_int count))"

text \<open>The fields of \<open>LogData\<close> computed from the run; the error list is given as the map
  it is read from.\<close>

record LogData =
  NumberOfThreads :: int
  NumberOfUsersPerThread :: int
  BatchSize :: int
  NumberOfUsers :: int
  AverageTimeToSpinUpUsers :: "real option"
  AverageTimeToCreateResources :: "real option"
  AverageTimeToRunPipelines :: "real option"
  UserCreationFailureCount :: int
  UserCreationFailurePercentage :: "real option"
  ResourceCreationFailureCount :: int
  ResourceCreationFailurePercentage :: "real option"
  PipelineRunFailureCount :: int
  PipelineRunFailurePercentage :: "real option"
  ErrorsOccurred :: error_map

text \<open>The map after the last worker's last step: each worker starts from the map the
  one before left.\<close>

definition finalErrors :: "worker list \<Rightarrow> error_map" where
  "finalErrors ws = (if ws = [] then Map.empty else errorOccurredMap (last ws))"

definition report :: "config \<Rightarrow> worker list \<Rightarrow> LogData" where
  "report cfg ws =
     (let overallCount = go_int (numberOfUsers cfg * threadCount cfg) in
      \<lparr>NumberOfThreads = threadCount cfg,
       NumberOfUsersPerThread = numberOfUsers cfg,
       BatchSize = userBatches cfg,
       NumberOfUsers = overallCount,
       AverageTimeToSpinUpUsers =
         averageDurationFromArray (map AverageUserCreationTime ws) overallCount,
       AverageTimeToCreateResources =
         averageDurationFromArray (map AverageResourceCreationTimePerUser ws) overallCount,
       AverageTimeToRunPipelines =
         averageDurationFromArray (map AveragePipelineRunTimePerUser ws) overallCount,
       UserCreationFailureCount = sumFromArray (map FailedUserCreations ws),
       UserCreationFailurePercentage =
         percentage (sumFromArray (map FailedUserCreations ws)) overallCount,
       ResourceCreationFailureCount = sumFromArray (map FailedResourceCreations ws),
       ResourceCreationFailurePercentage =
         percentage (sumFromArray (map FailedResourceCreations ws)) overallCount,
       PipelineRunFailureCount = sumFromArray (map FailedPipelineRuns ws),
       PipelineRunFailurePercentage =
         percentage (sumFromArray (map FailedPipelineRuns ws)) overallCount,
       ErrorsOccurred = finalErrors ws\<rparr>)"

text \<open>The function \<open>setup\<close> of the source, the whole run: the workers' final states
  and the aggregate reported. Each worker ends with \<open>threadsWG.Done()\<close>. Where the
  counter of the wait group started below \<open>threadCount\<close> (a \<open>threadCount\<close> of
  \<open>2 ^ 32\<close> or more), the join is broken: the workers run to their end here as in any
  other run, and the call of \<open>Done\<close> that takes the counter below zero panics.\<close>

definition runSetup :: "config \<Rightarrow> startup \<Rightarrow> collab \<Rightarrow> abort + (worker list \<times> LogData)" where
  "runSetup cfg st env =
     (case spawn cfg st of
        Inl a \<Rightarrow> Inl a
      | Inr threads \<Rightarrow>
          (case runThreads cfg env threads Map.empty of
             Inl a \<Rightarrow> Inl a
           | Inr ws \<Rightarrow>
               if wgCounter (threadCount cfg) < threadCount cfg
               then Inl (Panic ''sync: negative WaitGroup counter'')
               else Inr (ws, report cfg ws)))"

section \<open>Views of a worker's state\<close>

text \<open>What stage 1 writes, and what only stage 3 writes.\<close>

definition userData :: "worker \<Rightarrow> int \<times> int \<times> int list" where
  "userData w = (AverageUserCreationTime w, FailedUserCreations w, chUsers w)"

definition pipelineData ::
  "worker \<Rightarrow> int \<times> int \<times> ErrorOccurrence option \<times> ErrorOccurrence option" where
  "pipelineData w = (AveragePipelineRunTimePerUser w, FailedPipelineRuns w,
     errorOccurredMap w 8, errorOccurredMap w 9)"

text \<open>The number of ordinals sent on the \<open>chUsers\<close> channels of all workers.\<close>

definition stage1Forwarded :: "worker list \<Rightarrow> int" where
  "stage1Forwarded ws = sum_list (map (\<lambda>w. int (length (chUsers w))) ws)"

text \<open>Every user creation and every readiness wait succeeds.\<close>

definition everyUserReady :: "collab \<Rightarrow> bool" where
  "everyUserReady env =
     ((\<forall>t u n. users_Create env t u n = None) \<and> (\<forall>t u i n. wait_ForNamespace env t u i n = None))"

text \<open>The identity of a user is created. A cohort is balanced when either the creation
  of every member fails, or the creation of no member fails and the readiness waits made
  for all members but the last pass; \<open>userIndex\<close> is the last member.\<close>

definition created :: "config \<Rightarrow> collab \<Rightarrow> int \<Rightarrow> int \<Rightarrow> bool" where
  "created cfg env threadIndex userIndex =
     (users_Create env threadIndex userIndex (username cfg threadIndex userIndex) = None)"

definition cohortBalanced :: "config \<Rightarrow> collab \<Rightarrow> int \<Rightarrow> int \<Rightarrow> bool" where
  "cohortBalanced cfg env threadIndex userIndex =
     (let members = [userIndex - userBatches cfg + 1 .. userIndex] in
      (\<forall>i \<in> set members. \<not> created cfg env threadIndex i)
      \<or> ((\<forall>i \<in> set members. created cfg env threadIndex i)
          \<and> (\<forall>i \<in> set (butlast members). nsReady cfg env threadIndex userIndex i)))"

definition everyCohortBalanced :: "config \<Rightarrow> collab \<Rightarrow> bool" where
  "everyCohortBalanced cfg env =
     (\<forall>t \<in> set [0 .. threadCount cfg - 1].
        \<forall>k \<in> set [1 .. numberOfUsers cfg div userBatches cfg].
          cohortBalanced cfg env t (k * userBatches cfg))"

text \<open>
  What the cohort that ends at \<open>userIndex\<close> adds to the failure counter and to
  \<open>chUsers\<close> together: one for each member whose creation fails and, when the last
  member is created and the cohort is evaluated, the members forwarded, and one more
  when a readiness wait fails. \<open>accounted\<close> adds this up over the cohorts of all
  threads.
\<close>

definition cohortCount :: "config \<Rightarrow> collab \<Rightarrow> int \<Rightarrow> int \<Rightarrow> int" where
  "cohortCount cfg env threadIndex userIndex =
     (let members = [userIndex - userBatches cfg + 1 .. userIndex];
          forwarded = takeWhile (nsReady cfg env threadIndex userIndex) members in
      int (length (filter (\<lambda>i. \<not> created cfg env threadIndex i) members))
      + (if created cfg env threadIndex userIndex
         then int (length forwarded) + (if length forwarded < length members then 1 else 0)
         else 0))"

definition accounted :: "config \<Rightarrow> collab \<Rightarrow> int" where
  "accounted cfg env =
     sum_list (map (\<lambda>t. sum_list (map (\<lambda>k. cohortCount cfg env t (k * userBatches cfg))
                 [1 .. numberOfUsers cfg div userBatches cfg]))
       [0 .. threadCount cfg - 1])"

text \<open>
  The stage-2 step that fails for a user, by its error code: the registry credential (3),
  the application (4), the wait for the gitops repository (5), the component (6), the
  check of the component's name (7). \<open>None\<close> when every step succeeds.
\<close>

definition resourceFailure :: "config \<Rightarrow> collab \<Rightarrow> int \<Rightarrow> int \<Rightarrow> int option" where
  "resourceFailure cfg env threadIndex userIndex =
     (let uname = username cfg threadIndex userIndex;
          usernamespace = uname @ ''-tenant'';
          ApplicationName = uname @ ''-app'';
          ComponentName = uname @ ''-component'' in
      if CreateRegistryAuthSecret env threadIndex userIndex (RegistryAuthSecretName env) usernamespace \<noteq> None
      then Some 3
      else if CreateHasApplication env threadIndex userIndex ApplicationName usernamespace \<noteq> None
      then Some 4
      else if ApplicationGitopsRepoExists env threadIndex userIndex ApplicationName \<noteq> None
      then Some 5
      else (case CreateComponent env threadIndex userIndex ApplicationName ComponentName usernamespace of
              Inl err \<Rightarrow> Some 6
            | Inr componentName \<Rightarrow> if componentName \<noteq> ComponentName then Some 7 else None))"

text \<open>How often a code has been recorded.\<close>

definition errorCount :: "error_map \<Rightarrow> int \<Rightarrow> int" where
  "errorCount m c = (case m c of None \<Rightarrow> 0 | Some e \<Rightarrow> Count e)"

text \<open>The log file is created and the three klog flags are set: the run gets as far
  as the check of the batch size.\<close>

definition logReady :: "startup \<Rightarrow> bool" where
  "logReady st = (os_Create st = None
     \<and> fs_Set st ''log_file'' ''load-tests.log'' = None
     \<and> fs_Set st ''logtostderr'' ''false'' = None
     \<and> fs_Set st ''alsologtostderr'' (if logConsole st then ''true'' else ''false'') = None)"

text \<open>The framework and the token are obtained.\<close>

definition clusterReady :: "startup \<Rightarrow> bool" where
  "clusterReady st = (framework_NewFramework st = None \<and> auth_GetTokenFromOC st = None)"

definition healthy :: "startup \<Rightarrow> bool" where
  "healthy st = (logReady st \<and> clusterReady st)"

text \<open>The six arrays of \<open>threadCount\<close> entries are allocated and the wait group counts
  \<open>threadCount\<close>.\<close>

definition threadsStartable :: "config \<Rightarrow> startup \<Rightarrow> bool" where
  "threadsStartable cfg st =
     (0 \<le> threadCount cfg \<and> 8 * threadCount cfg \<le> maxAlloc
      \<and> threadCount cfg \<le> sliceMemory st \<and> 0 \<le> wgCounter (threadCount cfg))"

text \<open>The two channels of worker \<open>threadIndex\<close> are allocated.\<close>

definition channelsMade :: "config \<Rightarrow> collab \<Rightarrow> int \<Rightarrow> bool" where
  "channelsMade cfg env threadIndex =
     (0 \<le> numberOfUsers cfg \<and> 8 * numberOfUsers cfg \<le> maxAlloc - hchanSize
      \<and> numberOfUsers cfg \<le> chanMemory env threadIndex)"



text \<open>The first lookup of a poll that shows the run done: what the poll ends on.\<close>

fun firstDone :: "(string + pipelineRun) list \<Rightarrow> pipelineRun option" where
  "firstDone [] = None"
| "firstDone (lookup # rest) =
     (case lookup of
        Inl err \<Rightarrow> firstDone rest
      | Inr run \<Rightarrow> if IsDone run then Some run else firstDone rest)"

text \<open>The run stage 3 ends on for a user, \<open>None\<close> at a timeout, and its run time.\<close>

definition pipelineOutcome :: "config \<Rightarrow> collab \<Rightarrow> int \<Rightarrow> int \<Rightarrow> pipelineRun option" where
  "pipelineOutcome cfg env threadIndex userIndex =
     (let uname = username cfg threadIndex userIndex in
      firstDone (GetComponentPipelineRun env threadIndex userIndex (uname @ ''-component'')
        (uname @ ''-app'') (uname @ ''-tenant'')))"

definition pipelineRunTime :: "config \<Rightarrow> collab \<Rightarrow> int \<Rightarrow> int \<Rightarrow> int" where
  "pipelineRunTime cfg env threadIndex userIndex =
     (case pipelineOutcome cfg env threadIndex userIndex of
        Some run \<Rightarrow> RunTime run
      | None \<Rightarrow> 0)"

text \<open>Every attempt of every stage succeeds for every user.\<close>

definition everyStageSucceeds :: "config \<Rightarrow> collab \<Rightarrow> bool" where
  "everyStageSucceeds cfg env =
     (everyUserReady env
      \<and> (\<forall>t u. resourceFailure cfg env t u = None)
      \<and> (\<forall>t u. \<exists>run. pipelineOutcome cfg env t u = Some run \<and> \<not> SucceededIsFalse run))"

text \<open>The state of a worker that met no failure, from the map \<open>m\<close> it started with.\<close>

definition finishedWorker :: "config \<Rightarrow> collab \<Rightarrow> int \<Rightarrow> error_map \<Rightarrow> worker" where
  "finishedWorker cfg env t m =
     \<lparr>AverageUserCreationTime = sum_list (map (UserCreationTime env t) [1 .. numberOfUsers cfg]),
      AverageResourceCreationTimePerUser =
        sum_list (map (\<lambda>u. ResourceCreationTime env t u + sleeps cfg env t u)
          [1 .. numberOfUsers cfg]),
      AveragePipelineRunTimePerUser =
        sum_list (map (pipelineRunTime cfg env t) [1 .. numberOfUsers cfg]),
      FailedUserCreations = 0, FailedResourceCreations = 0, FailedPipelineRuns = 0,
      errorOccurredMap = m, chUsers = [1 .. numberOfUsers cfg],
      chPipelines = [1 .. numberOfUsers cfg]\<rparr>"

section \<open>Example runs\<close>

text \<open>A cluster where every call succeeds at once, every duration is one nanosecond
  and every sleep takes its second, on a machine with memory for channels of a million
  elements and for a thousand workers; and the configuration with the default prefix.\<close>

definition exampleCollab :: collab where
  "exampleCollab =
     \<lparr>users_Create = (\<lambda>threadIndex userIndex name. None),
      wait_ForNamespace = (\<lambda>threadIndex userIndex i namespace. None),
      UserCreationTime = (\<lambda>threadIndex userIndex. 1),
      CreateRegistryAuthSecret = (\<lambda>threadIndex userIndex name namespace. None),
      CreateHasApplication = (\<lambda>threadIndex userIndex name namespace. None),
      ApplicationGitopsRepoExists = (\<lambda>threadIndex userIndex name. None),
      CreateComponent = (\<lambda>threadIndex userIndex application name namespace. Inr name),
      ResourceCreationTime = (\<lambda>threadIndex userIndex. 1),
      time_Sleep_excess = (\<lambda>threadIndex userIndex i. 0),
      GetComponentPipelineRun = (\<lambda>threadIndex userIndex component application namespace.
        [Inr \<lparr>IsDone = True, RunTime = 1, SucceededIsFalse = False, Reason = ''Succeeded'',
              Message = ''''\<rparr>]),
      RegistryAuthSecretName = ''redhat-appstudio-registry-pull-secret'',
      DefaultTimeout = ''2m0s'',
      chanMemory = (\<lambda>threadIndex. 1000000)\<rparr>"

definition exampleConfig :: "int \<Rightarrow> int \<Rightarrow> int \<Rightarrow> bool \<Rightarrow> bool \<Rightarrow> config" where
  "exampleConfig threads users batch wait ff =
     \<lparr>usernamePrefix = ''testuser'', numberOfUsers = users, userBatches = batch,
      waitPipelines = wait, failFast = ff, threadCount = threads\<rparr>"

definition exampleStartup :: startup where
  "exampleStartup =
     \<lparr>os_Create = None, fs_Set = (\<lambda>name v. None), logConsole = False,
      framework_NewFramework = None, auth_GetTokenFromOC = None,
      auth_GetTokenRequestURI = Inr '''', sliceMemory = 1000\<rparr>"

text \<open>No cluster is reached: the framework cannot be created.\<close>

definition noCluster :: startup where
  "noCluster = exampleStartup\<lparr>framework_NewFramework := Some ''no cluster''\<rparr>"

text \<open>Only the namespace of user 2 ever becomes ready.\<close>

definition onlyLastReady :: collab where
  "onlyLastReady = exampleCollab\<lparr>wait_ForNamespace :=
      (\<lambda>threadIndex userIndex i namespace.
         if namespace = ''testuser-0002-tenant'' then None else Some ''timed out'')\<rparr>"

text \<open>The readiness wait made for member 2 times out, every other one passes.\<close>

definition secondNotReady :: collab where
  "secondNotReady = exampleCollab\<lparr>wait_ForNamespace :=
      (\<lambda>threadIndex userIndex i namespace. if i = 2 then Some ''timed out'' else None)\<rparr>"

text \<open>The readiness wait made for member 1 times out, every other one passes.\<close>

definition firstNotReady :: collab where
  "firstNotReady = exampleCollab\<lparr>wait_ForNamespace :=
      (\<lambda>threadIndex userIndex i namespace. if i = 1 then Some ''timed out'' else None)\<rparr>"

text \<open>The registry credential of user 3 cannot be created.\<close>

definition secretDenied :: collab where
  "secretDenied = exampleCollab\<lparr>CreateRegistryAuthSecret :=
      (\<lambda>threadIndex userIndex name namespace. if userIndex = 3 then Some ''denied'' else None)\<rparr>"

text \<open>A cluster where every call succeeds, with the given time per user for each stage;
  a pipeline run is found done at the third lookup.\<close>

definition clusterWithTimes :: "int \<Rightarrow> int \<Rightarrow> int \<Rightarrow> collab" where
  "clusterWithTimes userTime resourceTime runTime =
     exampleCollab\<lparr>UserCreationTime := (\<lambda>threadIndex userIndex. userTime),
       ResourceCreationTime := (\<lambda>threadIndex userIndex. resourceTime),
       GetComponentPipelineRun := (\<lambda>threadIndex userIndex component application namespace.
         [Inl ''not found'',
          Inr \<lparr>IsDone = False, RunTime = 0, SucceededIsFalse = False, Reason = ''Running'',
               Message = ''''\<rparr>,
          Inr \<lparr>IsDone = True, RunTime = runTime, SucceededIsFalse = False,
               Reason = ''Succeeded'', Message = ''''\<rparr>])\<rparr>"

section \<open>Go integers and loops\<close>

lemma go_int_id: "is_int x \<Longrightarrow> go_int x = x"
proof -
  assume "is_int x"
  then have "0 \<le> x + 2 ^ 63" and "x + 2 ^ 63 < 2 ^ 64"
    by (simp_all add: is_int_def)
  then have "(x + 2 ^ 63) mod 2 ^ 64 = x + 2 ^ 63"
    by (rule mod_pos_pos_trivial)
  then show ?thesis by (simp add: go_int_def)
qed

lemma go_rem_eq_0_iff: "go_rem a b = 0 \<longleftrightarrow> b dvd a"
proof -
  have "go_rem a b = 0 \<longleftrightarrow> \<bar>a\<bar> mod \<bar>b\<bar> = 0"
    by (auto simp: go_rem_def sgn_if)
  also have "\<dots> \<longleftrightarrow> \<bar>b\<bar> dvd \<bar>a\<bar>"
    by (simp add: dvd_eq_mod_eq_0)
  finally show ?thesis by simp
qed

lemma forEach_append:
  "forEach body (xs @ ys) s =
     (case forEach body xs s of Inl a \<Rightarrow> Inl a | Inr s' \<Rightarrow> forEach body ys s')"
  by (induction xs arbitrary: s) (auto split: sum.splits)

lemma forEach_invariant:
  assumes "forEach body xs s = Inr s'" and "P s"
    and "\<And>x r r'. x \<in> set xs \<Longrightarrow> P r \<Longrightarrow> body x r = Inr r' \<Longrightarrow> P r'"
  shows "P s'"
  using assms
proof (induction xs arbitrary: s)
  case Nil
  then show ?case by simp
next
  case (Cons x xs)
  from Cons.prems(1) obtain r where r: "body x s = Inr r" and rest: "forEach body xs r = Inr s'"
    by (auto split: sum.splits)
  have "P r" using Cons.prems(3) [of x s r] Cons.prems(2) r by simp
  moreover have "P q'" if "y \<in> set xs" "P q" "body y q = Inr q'" for y q q'
    using Cons.prems(3) [of y q q'] that by simp
  ultimately show ?case using Cons.IH [OF rest] by blast
qed

section \<open>Properties of the error accumulator\<close>

lemma logErrors_append:
  "logErrors ff (xs @ ys) m =
     (case logErrors ff xs m of Inl a \<Rightarrow> Inl a | Inr m' \<Rightarrow> logErrors ff ys m')"
  by (induction xs arbitrary: m) (auto split: sum.splits)

lemma logErrors_total: "\<exists>m'. logErrors False calls m = Inr m'"
  by (induction calls arbitrary: m) (auto simp: logError_def split: option.splits)

lemma logErrors_entry:
  "logErrors ff calls Map.empty = Inr m \<Longrightarrow>
   m c = (if calls_with c calls = [] then None
          else Some \<lparr>ErrorNumber = c,
                     LatestMessage = snd (last (calls_with c calls)),
                     Count = int (length (calls_with c calls))\<rparr>)"
proof (induction calls arbitrary: m rule: rev_induct)
  case Nil
  then show ?case by (auto simp: calls_with_def)
next
  case (snoc x xs)
  from snoc.prems obtain m1 where m1: "logErrors ff xs Map.empty = Inr m1"
    and step: "logError ff (fst x) (snd x) m1 = Inr m"
    by (auto simp: logErrors_append split: sum.splits)
  note ih = snoc.IH [OF m1]
  from step have ff: "\<not> ff" by (auto simp: logError_def Let_def split: if_splits)
  show ?case
  proof (cases "fst x = c")
    case False
    with step ff have "m c = m1 c"
      by (auto simp: logError_def Let_def split: option.splits)
    with False ih show ?thesis by (simp add: calls_with_def)
  next
    case True
    show ?thesis
    proof (cases "calls_with c xs = []")
      case True
      with ih have "m1 c = None" by simp
      with step ff \<open>fst x = c\<close> True show ?thesis
        by (auto simp: logError_def Let_def calls_with_def)
    next
      case False
      with ih have "m1 c = Some \<lparr>ErrorNumber = c,
                     LatestMessage = snd (last (calls_with c xs)),
                     Count = int (length (calls_with c xs))\<rparr>" by simp
      with step ff \<open>fst x = c\<close> show ?thesis
        by (auto simp: logError_def Let_def calls_with_def)
    qed
  qed
qed

text \<open>
  Claim C8. After any finite sequence of \<open>logError\<close> calls on the fresh map, a code that
  was recorded at least once has an entry whose \<open>Count\<close> is the number of calls made with
  that code and whose \<open>LatestMessage\<close> is the message of the most recent such call; a code
  that was never recorded has no entry. Without \<open>failFast\<close> every sequence of calls
  returns; with it the first call ends the process, so nothing comes after it.
\<close>

theorem logError_accumulates:
  "(\<not> ff \<longrightarrow> (\<exists>m. logErrors ff calls Map.empty = Inr m)) \<and>
   (\<forall>m c. logErrors ff calls Map.empty = Inr m \<longrightarrow>
      (c \<in> fst ` set calls \<longrightarrow>
         (\<exists>e. m c = Some e \<and> ErrorNumber e = c
            \<and> Count e = int (length (calls_with c calls))
            \<and> LatestMessage e = snd (last (calls_with c calls)))) \<and>
      (c \<notin> fst ` set calls \<longrightarrow> m c = None))"
proof -
  have mem: "c \<in> fst ` set calls \<longleftrightarrow> calls_with c calls \<noteq> []" for c
    by (auto simp: calls_with_def filter_empty_conv)
  have tot: "\<not> ff \<longrightarrow> (\<exists>m. logErrors ff calls Map.empty = Inr m)"
    using logErrors_total [of calls Map.empty] by auto
  have ent: "(c \<in> fst ` set calls \<longrightarrow>
         (\<exists>e. m c = Some e \<and> ErrorNumber e = c
            \<and> Count e = int (length (calls_with c calls))
            \<and> LatestMessage e = snd (last (calls_with c calls)))) \<and>
      (c \<notin> fst ` set calls \<longrightarrow> m c = None)"
    if "logErrors ff calls Map.empty = Inr m" for m c
    using logErrors_entry [OF that, of c] by (simp add: mem)
  from tot ent show ?thesis by blast
qed

theorem logError_accumulates_witness:
  "\<exists>m. logErrors False [(3, ''a''), (1, ''b''), (3, ''c'')] Map.empty = Inr m
      \<and> (\<exists>e. m 3 = Some e \<and> ErrorNumber e = 3 \<and> Count e = 2 \<and> LatestMessage e = ''c'')
      \<and> m 2 = None"
  using logError_accumulates [of False "[(3, ''a''), (1, ''b''), (3, ''c'')]"]
  by (auto simp: calls_with_def)

section \<open>Stage 1\<close>

lemma failUser_Inr:
  "failUser cfg c msg w = Inr w' \<Longrightarrow>
     (\<exists>m. w' = w\<lparr>errorOccurredMap := m, FailedUserCreations := FailedUserCreations w + 1\<rparr>)
     \<and> \<not> failFast cfg"
  by (auto simp: failUser_def logError_def Let_def split: sum.splits if_splits option.splits)

lemma batchLoop_chUsers:
  "batchLoop cfg env t u xs w = Inr (completed, w') \<Longrightarrow>
     chUsers w' = chUsers w @ takeWhile (nsReady cfg env t u) xs
     \<and> (completed \<longleftrightarrow> (\<forall>i \<in> set xs. nsReady cfg env t u i))"
proof (induction xs arbitrary: w)
  case Nil
  then show ?case by auto
next
  case (Cons i rest)
  show ?case
  proof (cases "nsReady cfg env t u i")
    case True
    with Cons.prems have "batchLoop cfg env t u rest (w\<lparr>chUsers := chUsers w @ [i]\<rparr>) = Inr (completed, w')"
      by (simp add: nsReady_def Let_def)
    from Cons.IH [OF this] True show ?thesis by simp
  next
    case False
    then obtain err where err: "wait_ForNamespace env t u i
        (usernamePrefix cfg @ ''-'' @ fmt_04d (userNumber cfg t u) @ ''-tenant'') = Some err"
      by (auto simp: nsReady_def)
    with Cons.prems obtain msg where "failUser cfg 2 msg w = Inr w'" and "\<not> completed"
      by (auto simp: Let_def split: sum.splits)
    then have "chUsers w' = chUsers w" by (auto dest: failUser_Inr)
    with False \<open>\<not> completed\<close> show ?thesis by simp
  qed
qed

text \<open>
  Claim C1, at a failing input. One thread, two users, a batch of two; the namespace
  \<open>testuser-0001-tenant\<close> of member 1 never becomes ready, that of member 2 is ready.
  The cohort is evaluated at \<open>userIndex = 2\<close>, and the wait made for member 1 is given
  the namespace of user 2: both members are forwarded and no failure is recorded,
  although a wait on member 1's own namespace times out.
\<close>

theorem stage1_polls_namespace_of_last_member:
  "username (exampleConfig 1 2 2 False False) 0 1 @ ''-tenant'' = ''testuser-0001-tenant''
   \<and> wait_ForNamespace onlyLastReady 0 2 1 ''testuser-0001-tenant'' = Some ''timed out''
   \<and> map_sum id (\<lambda>w. (chUsers w, FailedUserCreations w, errorOccurredMap w 2))
        (stage1 (exampleConfig 1 2 2 False False) onlyLastReady 0 (newWorker Map.empty))
      = Inr ([1, 2], 0, None)"
  by code_simp

text \<open>
  Claim C2 as stated fails. One thread, two users, a batch of two; the wait made for
  member 1 passes and the wait made for member 2 times out. Ordinal 1 has been sent on
  \<open>chUsers\<close> by then and stays there, and one failure is counted.
\<close>

theorem cohort_forwarded_in_part:
  "wait_ForNamespace secondNotReady 0 2 2 ''testuser-0002-tenant'' = Some ''timed out''
   \<and> map_sum id (\<lambda>w. (chUsers w, FailedUserCreations w))
        (stage1 (exampleConfig 1 2 2 False False) secondNotReady 0 (newWorker Map.empty))
      = Inr ([1], 1)"
  by code_simp

text \<open>
  Claim C2, amended. In one iteration of the user loop that returns, the ordinals sent
  on \<open>chUsers\<close> are the longest prefix of the cohort, in ascending order, whose readiness
  waits passed, and nothing is sent unless the user was created and its index is a
  multiple of the batch size. So an ordinal is forwarded only if its own wait and the
  wait of every earlier member of its cohort passed in that evaluation, and from the
  first member whose wait fails on, no member is forwarded.
\<close>

theorem cohort_forwards_ready_prefix:
  assumes "userStep cfg env threadIndex userIndex w = Inr w'"
  shows "chUsers w' = chUsers w @
     (if users_Create env threadIndex userIndex (username cfg threadIndex userIndex) = None
         \<and> go_rem userIndex (userBatches cfg) = 0
      then takeWhile (nsReady cfg env threadIndex userIndex)
             [go_int (go_int (userIndex - userBatches cfg) + 1) .. userIndex]
      else [])"
proof (cases "users_Create env threadIndex userIndex (username cfg threadIndex userIndex)")
  case (Some err)
  with assms obtain msg where "failUser cfg 1 msg w = Inr w'"
    by (auto simp: userStep_def)
  then have "chUsers w' = chUsers w" by (auto dest: failUser_Inr)
  with Some show ?thesis by simp
next
  case None
  from assms None have nz: "userBatches cfg \<noteq> 0"
    by (auto simp: userStep_def split: if_splits)
  show ?thesis
  proof (cases "go_rem userIndex (userBatches cfg) = 0")
    case False
    with assms None nz show ?thesis by (auto simp: userStep_def)
  next
    case True
    with assms None nz obtain completed w1 where
      loop: "batchLoop cfg env threadIndex userIndex
               [go_int (go_int (userIndex - userBatches cfg) + 1) .. userIndex] w = Inr (completed, w1)"
      and w': "chUsers w' = chUsers w1"
      by (auto simp: userStep_def split: sum.splits prod.splits if_splits)
    from batchLoop_chUsers [OF loop] w' None True show ?thesis by simp
  qed
qed

theorem cohort_forwards_ready_prefix_witness:
  "\<exists>w'. userStep (exampleConfig 1 2 2 False False) secondNotReady 0 2 (newWorker Map.empty) = Inr w'
      \<and> chUsers w' = [1]"
proof -
  let ?r = "userStep (exampleConfig 1 2 2 False False) secondNotReady 0 2 (newWorker Map.empty)"
  have "\<not> isl ?r" by code_simp
  then obtain w' where run: "?r = Inr w'" by (cases ?r) auto
  have "chUsers (newWorker Map.empty) @
     (if users_Create secondNotReady 0 2 (username (exampleConfig 1 2 2 False False) 0 2) = None
         \<and> go_rem 2 (userBatches (exampleConfig 1 2 2 False False)) = 0
      then takeWhile (nsReady (exampleConfig 1 2 2 False False) secondNotReady 0 2)
             [go_int (go_int (2 - userBatches (exampleConfig 1 2 2 False False)) + 1) .. 2]
      else []) = [1]"
    by code_simp
  with cohort_forwards_ready_prefix [OF run] have "chUsers w' = [1]" by simp
  with run show ?thesis by blast
qed

section \<open>Stage 1 when every call succeeds\<close>

lemma div_step_dvd:
  fixes n b :: int
  assumes "0 < b" "0 \<le> n" "b dvd n + 1"
  shows "b * ((n + 1) div b) = n + 1" and "b * (n div b) = n + 1 - b"
proof -
  show "b * ((n + 1) div b) = n + 1" using assms(3) by simp
  from assms(3) obtain k where k: "n + 1 = b * k" by (auto simp: dvd_def)
  then have n: "n = b * (k - 1) + (b - 1)" by (simp add: algebra_simps)
  have "(b * (k - 1) + (b - 1)) div b = (k - 1) + (b - 1) div b"
    using assms(1) by simp
  also have "(b - 1) div b = 0" using assms(1) by (simp add: div_pos_pos_trivial)
  finally have "n div b = k - 1" using n by simp
  then have "b * (n div b) = b * k - b" by (simp add: right_diff_distrib)
  then show "b * (n div b) = n + 1 - b" using k by simp
qed

lemma div_step_not_dvd:
  fixes n b :: int
  assumes "0 < b" "0 \<le> n" "\<not> b dvd n + 1"
  shows "(n + 1) div b = n div b"
proof -
  let ?r = "n mod b"
  have r: "0 \<le> ?r" "?r < b" using assms(1) by simp_all
  have n: "n + 1 = b * (n div b) + (?r + 1)" by simp
  have "?r + 1 \<noteq> b"
  proof
    assume "?r + 1 = b"
    with n have "n + 1 = b * (n div b) + b" by simp
    then have "n + 1 = b * (n div b + 1)" by (simp add: distrib_left)
    then have "b dvd n + 1" by (metis dvd_triv_left)
    with assms(3) show False by simp
  qed
  with r have small: "0 \<le> ?r + 1" "?r + 1 < b" by simp_all
  have "(b * (n div b) + (?r + 1)) div b = n div b + (?r + 1) div b"
    by (rule div_mult_self4) (use assms(1) in simp)
  also have "(?r + 1) div b = 0" using small by (simp add: div_pos_pos_trivial)
  finally have "(b * (n div b) + (?r + 1)) div b = n div b"
    by (simp only: add_0_right)
  then show ?thesis by (simp only: n [symmetric])
qed

lemma forEach_snoc:
  "forEach body (xs @ [x]) s =
     (case forEach body xs s of Inl a \<Rightarrow> Inl a | Inr s' \<Rightarrow> body x s')"
  by (induction xs arbitrary: s) (auto split: sum.splits)

lemma upto_snoc1: "0 \<le> n \<Longrightarrow> [1 .. n + 1] = [1 .. n] @ [n + 1]"
  by (simp add: upto_rec2)

lemma upto_split: "(1::int) \<le> a \<Longrightarrow> a \<le> b + 1 \<Longrightarrow> [1 .. a - 1] @ [a .. b] = [1 .. b]"
  by (metis add.commute add_minus_cancel append_Nil2 less_iff_succ_less_eq
    linorder_not_less nle_le uminus_add_conv_diff upto_Nil upto_split1)

lemma cohort_lower:
  assumes "0 < b" "is_int b" "1 \<le> u" "is_int u"
  shows "go_int (go_int (u - b) + 1) = u - b + 1"
proof -
  have "is_int (u - b)" using assms by (simp add: is_int_def)
  then have "go_int (u - b) = u - b" by (rule go_int_id)
  moreover have "is_int (u - b + 1)" using assms by (simp add: is_int_def)
  ultimately show ?thesis by (simp add: go_int_id)
qed

lemma batchLoop_all_ready:
  "\<forall>i \<in> set xs. nsReady cfg env t u i \<Longrightarrow>
     batchLoop cfg env t u xs w = Inr (True, w\<lparr>chUsers := chUsers w @ xs\<rparr>)"
  by (induction xs arbitrary: w) (simp_all add: nsReady_def Let_def)

lemma userStep_success:
  assumes "users_Create env t u (username cfg t u) = None"
    and "\<forall>i. nsReady cfg env t u i"
    and "0 < userBatches cfg" "is_int (userBatches cfg)" "1 \<le> u" "is_int u"
  shows "userStep cfg env t u w =
     Inr (w\<lparr>chUsers := chUsers w @
               (if userBatches cfg dvd u then [u - userBatches cfg + 1 .. u] else []),
            AverageUserCreationTime := AverageUserCreationTime w + UserCreationTime env t u\<rparr>)"
proof (cases "userBatches cfg dvd u")
  case True
  have lo: "go_int (go_int (u - userBatches cfg) + 1) = u - userBatches cfg + 1"
    using assms(3-6) by (rule cohort_lower)
  have "batchLoop cfg env t u [u - userBatches cfg + 1 .. u] w =
      Inr (True, w\<lparr>chUsers := chUsers w @ [u - userBatches cfg + 1 .. u]\<rparr>)"
    using assms(2) by (simp add: batchLoop_all_ready)
  with True assms(1,3) lo show ?thesis
    by (simp add: userStep_def go_rem_eq_0_iff)
next
  case False
  with assms(1,3) show ?thesis
    by (simp add: userStep_def go_rem_eq_0_iff)
qed

lemma stage1_success:
  assumes ok: "\<forall>u n. users_Create env t u n = None"
    and ready: "\<forall>u i n. wait_ForNamespace env t u i n = None"
    and b: "0 < userBatches cfg" "is_int (userBatches cfg)"
    and n: "0 \<le> n" "is_int n"
  shows "forEach (userStep cfg env t) [1 .. n] w =
     Inr (w\<lparr>chUsers := chUsers w @ [1 .. userBatches cfg * (n div userBatches cfg)],
            AverageUserCreationTime :=
              AverageUserCreationTime w + sum_list (map (UserCreationTime env t) [1 .. n])\<rparr>)"
  using n
proof (induction n rule: int_ge_induct)
  case base
  then show ?case by simp
next
  case (step m)
  let ?b = "userBatches cfg"
  from step.prems step.hyps have m: "is_int m" and m1: "1 \<le> m + 1" "is_int (m + 1)"
    by (simp_all add: is_int_def)
  let ?w1 = "w\<lparr>chUsers := chUsers w @ [1 .. ?b * (m div ?b)],
            AverageUserCreationTime :=
              AverageUserCreationTime w + sum_list (map (UserCreationTime env t) [1 .. m])\<rparr>"
  have ih: "forEach (userStep cfg env t) [1 .. m] w = Inr ?w1"
    using step.IH m by simp
  have rdy: "\<forall>i. nsReady cfg env t (m + 1) i" using ready by (simp add: nsReady_def)
  have st: "userStep cfg env t (m + 1) ?w1 =
     Inr (?w1\<lparr>chUsers := chUsers ?w1 @
               (if ?b dvd m + 1 then [m + 1 - ?b + 1 .. m + 1] else []),
            AverageUserCreationTime := AverageUserCreationTime ?w1 + UserCreationTime env t (m + 1)\<rparr>)"
    using ok rdy b m1 by (intro userStep_success) auto
  have lists: "[1 .. ?b * (m div ?b)] @ (if ?b dvd m + 1 then [m + 1 - ?b + 1 .. m + 1] else [])
      = [1 .. ?b * ((m + 1) div ?b)]"
  proof (cases "?b dvd m + 1")
    case True
    from div_step_dvd [OF b(1) step.hyps True]
    have e1: "?b * ((m + 1) div ?b) = m + 1" and e2: "?b * (m div ?b) = m + 1 - ?b" .
    have "?b \<le> m + 1" using True b(1) step.hyps by (intro zdvd_imp_le) auto
    then have "[1 .. (m + 1 - ?b + 1) - 1] @ [m + 1 - ?b + 1 .. m + 1] = [1 .. m + 1]"
      using b(1) by (intro upto_split) auto
    moreover have "(m + 1 - ?b + 1) - 1 = ?b * (m div ?b)" using e2 by simp
    ultimately have "[1 .. ?b * (m div ?b)] @ [m + 1 - ?b + 1 .. m + 1] = [1 .. m + 1]"
      by (simp only:)
    then show ?thesis unfolding e1 by (simp only: True if_True)
  next
    case False
    from div_step_not_dvd [OF b(1) step.hyps False] have "(m + 1) div ?b = m div ?b" .
    then show ?thesis by (simp only: False if_False append_Nil2)
  qed
  have time: "sum_list (map (UserCreationTime env t) [1 .. m + 1]) =
      sum_list (map (UserCreationTime env t) [1 .. m]) + UserCreationTime env t (m + 1)"
    using step.hyps by (simp add: upto_snoc1)
  have split: "[1 .. m + 1] = [1 .. m] @ [m + 1]"
    using step.hyps by (rule upto_snoc1)
  have "forEach (userStep cfg env t) [1 .. m + 1] w = userStep cfg env t (m + 1) ?w1"
    by (simp only: split forEach_snoc ih sum.case)
  also have "\<dots> = Inr (w\<lparr>chUsers := chUsers w @ ([1 .. ?b * (m div ?b)] @
               (if ?b dvd m + 1 then [m + 1 - ?b + 1 .. m + 1] else [])),
            AverageUserCreationTime := AverageUserCreationTime w
              + (sum_list (map (UserCreationTime env t) [1 .. m]) + UserCreationTime env t (m + 1))\<rparr>)"
    unfolding st by (simp add: add.assoc)
  also have "\<dots> = Inr (w\<lparr>chUsers := chUsers w @ [1 .. ?b * ((m + 1) div ?b)],
            AverageUserCreationTime := AverageUserCreationTime w
              + sum_list (map (UserCreationTime env t) [1 .. m + 1])\<rparr>)"
    by (simp only: lists time)
  finally show ?case .
qed

section \<open>What each stage leaves unchanged\<close>

lemma logError_other: "logError ff c msg m = Inr m' \<Longrightarrow> k \<noteq> c \<Longrightarrow> m' k = m k"
  by (auto simp: logError_def Let_def split: if_splits option.splits)

lemma failUser_pipelineData:
  "failUser cfg c msg w = Inr w' \<Longrightarrow> c \<noteq> 8 \<Longrightarrow> c \<noteq> 9 \<Longrightarrow> pipelineData w' = pipelineData w"
  by (auto simp: failUser_def pipelineData_def split: sum.splits dest: logError_other)

lemma failResource_Inr:
  "failResource cfg c msg w = Inr w' \<Longrightarrow>
     (\<exists>m. logError False c msg (errorOccurredMap w) = Inr m
        \<and> w' = w\<lparr>errorOccurredMap := m, FailedResourceCreations := FailedResourceCreations w + 1\<rparr>)
     \<and> \<not> failFast cfg"
  by (auto simp: failResource_def logError_def Let_def split: sum.splits if_splits option.splits)

lemma failPipeline_Inr:
  "failPipeline cfg c msg w = Inr w' \<Longrightarrow>
     (\<exists>m. logError False c msg (errorOccurredMap w) = Inr m
        \<and> w' = w\<lparr>errorOccurredMap := m, FailedPipelineRuns := FailedPipelineRuns w + 1\<rparr>)
     \<and> \<not> failFast cfg"
  by (auto simp: failPipeline_def logError_def Let_def split: sum.splits if_splits option.splits)

lemma sendPipelines_Inr:
  "sendPipelines cfg u w = Inr w' \<Longrightarrow> w' = w\<lparr>chPipelines := chPipelines w @ [u]\<rparr>"
  by (auto simp: sendPipelines_def split: if_splits)

lemma resourceStep_Inr:
  "resourceStep cfg env t u w = Inr w' \<Longrightarrow>
     (\<exists>c msg. c \<in> {3, 4, 5, 6, 7} \<and> failResource cfg c msg w = Inr w') \<or>
     sendPipelines cfg u (w\<lparr>AverageResourceCreationTimePerUser :=
        AverageResourceCreationTimePerUser w
          + (ResourceCreationTime env t u + sleeps cfg env t u)\<rparr>) = Inr w'"
  unfolding resourceStep_def Let_def
  by (auto split: option.splits sum.splits if_splits)

lemma resourceStep_userData:
  "resourceStep cfg env t u w = Inr w' \<Longrightarrow> userData w' = userData w"
  by (drule resourceStep_Inr) (auto simp: userData_def dest!: failResource_Inr sendPipelines_Inr)

lemma failResource_pipelineData:
  "failResource cfg c msg w = Inr w' \<Longrightarrow> c \<noteq> 8 \<Longrightarrow> c \<noteq> 9 \<Longrightarrow> pipelineData w' = pipelineData w"
  by (auto simp: failResource_def pipelineData_def split: sum.splits dest: logError_other)

lemma resourceStep_pipelineData:
  assumes "resourceStep cfg env t u w = Inr w'"
  shows "pipelineData w' = pipelineData w"
  using resourceStep_Inr [OF assms]
proof (elim disjE exE conjE)
  fix c msg
  assume "c \<in> {3, 4, 5, 6, 7}" and "failResource cfg c msg w = Inr w'"
  then show ?thesis by (intro failResource_pipelineData [of cfg c msg]) auto
next
  assume "sendPipelines cfg u (w\<lparr>AverageResourceCreationTimePerUser :=
        AverageResourceCreationTimePerUser w
          + (ResourceCreationTime env t u + sleeps cfg env t u)\<rparr>) = Inr w'"
  then show ?thesis by (auto simp: pipelineData_def dest!: sendPipelines_Inr)
qed

lemma batchLoop_pipelineData:
  "batchLoop cfg env t u xs w = Inr (completed, w') \<Longrightarrow> pipelineData w' = pipelineData w"
proof (induction xs arbitrary: w)
  case Nil
  then show ?case by simp
next
  case (Cons i rest)
  show ?case
  proof (cases "nsReady cfg env t u i")
    case True
    with Cons.prems have "batchLoop cfg env t u rest (w\<lparr>chUsers := chUsers w @ [i]\<rparr>) = Inr (completed, w')"
      by (simp add: nsReady_def Let_def)
    from Cons.IH [OF this] show ?thesis by (simp add: pipelineData_def)
  next
    case False
    then obtain err where "wait_ForNamespace env t u i
        (usernamePrefix cfg @ ''-'' @ fmt_04d (userNumber cfg t u) @ ''-tenant'') = Some err"
      by (auto simp: nsReady_def)
    with Cons.prems obtain msg where "failUser cfg 2 msg w = Inr w'"
      by (auto simp: Let_def split: sum.splits)
    then show ?thesis by (rule failUser_pipelineData) simp_all
  qed
qed

lemma userStep_Inr:
  "userStep cfg env t u w = Inr w' \<Longrightarrow>
     (\<exists>msg. failUser cfg 1 msg w = Inr w') \<or>
     (\<exists>completed w1. batchLoop cfg env t u
         [go_int (go_int (u - userBatches cfg) + 1) .. u] w = Inr (completed, w1)
        \<and> go_rem u (userBatches cfg) = 0
        \<and> (w' = w1 \<or> w' = w1\<lparr>AverageUserCreationTime :=
                   AverageUserCreationTime w1 + UserCreationTime env t u\<rparr>)) \<or>
     w' = w\<lparr>AverageUserCreationTime := AverageUserCreationTime w + UserCreationTime env t u\<rparr>"
  unfolding userStep_def
  by (auto split: option.splits sum.splits if_splits prod.splits)

lemma userStep_pipelineData:
  "userStep cfg env t u w = Inr w' \<Longrightarrow> pipelineData w' = pipelineData w"
  by (drule userStep_Inr)
     (auto simp: pipelineData_def dest!: batchLoop_pipelineData dest: failUser_pipelineData)

lemma pollLoop_userData:
  "pollLoop cfg a c obs w = Inr (done, w') \<Longrightarrow> userData w' = userData w"
proof (induction obs arbitrary: w)
  case Nil
  then show ?case by simp
next
  case (Cons lookup rest)
  then show ?case
    by (auto simp: Let_def userData_def split: sum.splits if_splits dest!: failPipeline_Inr)
qed

lemma pipelineStep_userData:
  "pipelineStep cfg env t u w = Inr w' \<Longrightarrow> userData w' = userData w"
  unfolding pipelineStep_def Let_def
  by (auto split: sum.splits prod.splits if_splits dest!: pollLoop_userData failPipeline_Inr
        simp: userData_def)

section \<open>The run as a whole\<close>

lemma stage2_userData: "stage2 cfg env t w = Inr w' \<Longrightarrow> userData w' = userData w"
  unfolding stage2_def
  by (erule forEach_invariant [where P = "\<lambda>r. userData r = userData w"])
     (auto dest: resourceStep_userData)

lemma stage3_userData: "stage3 cfg env t w = Inr w' \<Longrightarrow> userData w' = userData w"
  unfolding stage3_def
  by (erule forEach_invariant [where P = "\<lambda>r. userData r = userData w"])
     (auto dest: pipelineStep_userData)

lemma stage1_pipelineData: "stage1 cfg env t w = Inr w' \<Longrightarrow> pipelineData w' = pipelineData w"
  unfolding stage1_def
  by (erule forEach_invariant [where P = "\<lambda>r. pipelineData r = pipelineData w"])
     (auto dest: userStep_pipelineData)

lemma stage2_pipelineData: "stage2 cfg env t w = Inr w' \<Longrightarrow> pipelineData w' = pipelineData w"
  unfolding stage2_def
  by (erule forEach_invariant [where P = "\<lambda>r. pipelineData r = pipelineData w"])
     (auto dest: resourceStep_pipelineData)

lemma userJourneyThread_Inr:
  assumes "userJourneyThread cfg env t w = Inr w'"
  shows "channelsMade cfg env t \<and>
     (\<exists>w1 w2. stage1 cfg env t (w\<lparr>chUsers := [], chPipelines := []\<rparr>) = Inr w1
        \<and> stage2 cfg env t w1 = Inr w2
        \<and> (if waitPipelines cfg then stage3 cfg env t w2 = Inr w' else w' = w2))"
  using assms unfolding userJourneyThread_def makechan_def channelsMade_def
  by (auto split: if_splits sum.splits)

lemma runThreads_invariant:
  assumes "runThreads cfg env ts m = Inr ws" and "Q m"
    and "\<And>t m w. t \<in> set ts \<Longrightarrow> Q m \<Longrightarrow> userJourneyThread cfg env t (newWorker m) = Inr w
           \<Longrightarrow> P w \<and> Q (errorOccurredMap w)"
  shows "length ws = length ts \<and> (\<forall>w \<in> set ws. P w)"
  using assms
proof (induction ts arbitrary: m ws)
  case Nil
  then show ?case by simp
next
  case (Cons t ts)
  from Cons.prems(1) obtain w ws' where
    w: "userJourneyThread cfg env t (newWorker m) = Inr w"
    and rest: "runThreads cfg env ts (errorOccurredMap w) = Inr ws'"
    and ws: "ws = w # ws'"
    by (auto split: sum.splits)
  from Cons.prems(3) [of t m w] Cons.prems(2) w have pw: "P w" and qw: "Q (errorOccurredMap w)"
    by simp_all
  have "length ws' = length ts \<and> (\<forall>w \<in> set ws'. P w)"
  proof (rule Cons.IH [OF rest qw])
    fix s k r
    assume "s \<in> set ts" "Q k" "userJourneyThread cfg env s (newWorker k) = Inr r"
    then show "P r \<and> Q (errorOccurredMap r)" using Cons.prems(3) [of s k r] by simp
  qed
  with pw ws show ?case by simp
qed

lemma sumFromArray_sum_list: "sumFromArray xs = sum_list xs"
proof -
  have "fold (\<lambda>i sum. sum + i) xs a = a + sum_list xs" for a
    by (induction xs arbitrary: a) simp_all
  then show ?thesis by (simp add: sumFromArray_def)
qed

lemma runSetup_Inr:
  assumes "runSetup cfg st env = Inr (ws, ld)"
  shows "0 \<le> threadCount cfg \<and> userBatches cfg \<noteq> 0 \<and> userBatches cfg dvd numberOfUsers cfg
     \<and> runThreads cfg env [0 .. threadCount cfg - 1] Map.empty = Inr ws \<and> ld = report cfg ws"
proof -
  from assms obtain ts where sp: "spawn cfg st = Inr ts"
    and run: "runThreads cfg env ts Map.empty = Inr ws" and ld: "ld = report cfg ws"
    by (auto simp: runSetup_def split: sum.splits if_splits)
  from sp have init: "initialize cfg st = Inr ()" and t: "0 \<le> threadCount cfg"
    and ts: "ts = [0 .. threadCount cfg - 1]"
    by (auto simp: spawn_def makeslice_def split: sum.splits if_splits)
  from init have "userBatches cfg \<noteq> 0" and "go_rem (numberOfUsers cfg) (userBatches cfg) = 0"
    unfolding initialize_def by (auto split: option.splits sum.splits if_splits)
  with t ts run ld show ?thesis by (simp add: go_rem_eq_0_iff)
qed

section \<open>Conservation in stage 1\<close>

lemma userStep_not_created:
  assumes "\<not> created cfg env t u" and "userStep cfg env t u w = Inr w'"
  shows "FailedUserCreations w' = FailedUserCreations w + 1 \<and> chUsers w' = chUsers w"
proof -
  from assms obtain msg where "failUser cfg 1 msg w = Inr w'"
    by (auto simp: userStep_def created_def split: option.splits)
  then show ?thesis by (auto dest: failUser_Inr)
qed

lemma userStep_plain:
  assumes "created cfg env t u" and "\<not> userBatches cfg dvd u"
    and "userStep cfg env t u w = Inr w'"
  shows "FailedUserCreations w' = FailedUserCreations w \<and> chUsers w' = chUsers w"
  using assms
  by (auto simp: userStep_def created_def go_rem_eq_0_iff split: if_splits)

lemma cohort_front:
  assumes "\<forall>u \<in> set xs. \<not> userBatches cfg dvd u"
    and "forEach (userStep cfg env t) xs w = Inr w'"
  shows "FailedUserCreations w' = FailedUserCreations w
           + int (length (filter (\<lambda>i. \<not> created cfg env t i) xs))
     \<and> chUsers w' = chUsers w"
  using assms
proof (induction xs arbitrary: w)
  case Nil
  then show ?case by simp
next
  case (Cons u xs)
  from Cons.prems(2) obtain w1 where st: "userStep cfg env t u w = Inr w1"
    and rest: "forEach (userStep cfg env t) xs w1 = Inr w'"
    by (auto split: sum.splits)
  from Cons.prems(1) have nd: "\<not> userBatches cfg dvd u"
    and others: "\<forall>u \<in> set xs. \<not> userBatches cfg dvd u" by simp_all
  note ih = Cons.IH [OF others rest]
  show ?case
  proof (cases "created cfg env t u")
    case True
    from userStep_plain [OF True nd st] ih True show ?thesis by simp
  next
    case False
    from userStep_not_created [OF False st] ih False show ?thesis by simp
  qed
qed

lemma batchLoop_failures:
  "batchLoop cfg env t u xs w = Inr (completed, w') \<Longrightarrow>
     FailedUserCreations w' = FailedUserCreations w + (if completed then 0 else 1)"
proof (induction xs arbitrary: w)
  case Nil
  then show ?case by auto
next
  case (Cons i rest)
  show ?case
  proof (cases "nsReady cfg env t u i")
    case True
    with Cons.prems have "batchLoop cfg env t u rest (w\<lparr>chUsers := chUsers w @ [i]\<rparr>) = Inr (completed, w')"
      by (simp add: nsReady_def Let_def)
    from Cons.IH [OF this] show ?thesis by simp
  next
    case False
    then obtain err where err: "wait_ForNamespace env t u i
        (usernamePrefix cfg @ ''-'' @ fmt_04d (userNumber cfg t u) @ ''-tenant'') = Some err"
      by (auto simp: nsReady_def)
    with Cons.prems obtain msg where "failUser cfg 2 msg w = Inr w'" and "\<not> completed"
      by (auto simp: Let_def split: sum.splits)
    then show ?thesis by (auto dest: failUser_Inr)
  qed
qed

lemma cohort_lower_dvd:
  assumes "b dvd u" "b \<noteq> 0" "1 \<le> u" "u < 2 ^ 62"
  shows "go_int (go_int (u - b) + 1) = u - b + 1"
proof -
  have "\<bar>b\<bar> \<le> \<bar>u\<bar>" using assms(1,3) by (intro dvd_imp_le_int) auto
  then have b: "- u \<le> b" "b \<le> u" using assms(3) by auto
  have "is_int (u - b)" using b assms(3,4) by (simp add: is_int_def)
  then have "go_int (u - b) = u - b" by (rule go_int_id)
  moreover have "is_int (u - b + 1)" using b assms(3,4) by (simp add: is_int_def)
  ultimately show ?thesis by (simp add: go_int_id)
qed

lemma takeWhile_short: "length (takeWhile P xs) < length xs \<longleftrightarrow> \<not> (\<forall>x \<in> set xs. P x)"
  by (induction xs) auto

lemma userStep_final:
  assumes b: "0 < userBatches cfg" "userBatches cfg dvd u"
    and u: "1 \<le> u" "u < 2 ^ 62"
    and run: "userStep cfg env t u w = Inr w'"
  shows "FailedUserCreations w' + int (length (chUsers w'))
     = FailedUserCreations w + int (length (chUsers w))
       + (if created cfg env t u
          then int (length (takeWhile (nsReady cfg env t u) [u - userBatches cfg + 1 .. u]))
               + (if length (takeWhile (nsReady cfg env t u) [u - userBatches cfg + 1 .. u])
                      < length [u - userBatches cfg + 1 .. u] then 1 else 0)
          else 1)"
proof (cases "created cfg env t u")
  case False
  from userStep_not_created [OF False run] False show ?thesis by simp
next
  case c: True
  let ?b = "userBatches cfg"
  let ?members = "[u - ?b + 1 .. u]"
  have lo: "go_int (go_int (u - ?b) + 1) = u - ?b + 1"
    using b u by (intro cohort_lower_dvd) auto
  from run c b lo obtain completed w1 where
    loop: "batchLoop cfg env t u ?members w = Inr (completed, w1)"
    and w': "FailedUserCreations w' = FailedUserCreations w1" "chUsers w' = chUsers w1"
    by (auto simp: userStep_def created_def go_rem_eq_0_iff
        split: sum.splits prod.splits if_splits)
  from batchLoop_chUsers [OF loop]
  have sent: "chUsers w1 = chUsers w @ takeWhile (nsReady cfg env t u) ?members"
    and fin: "completed \<longleftrightarrow> (\<forall>i \<in> set ?members. nsReady cfg env t u i)"
    by simp_all
  from fin have short: "length (takeWhile (nsReady cfg env t u) ?members) < length ?members
      \<longleftrightarrow> \<not> completed"
    by (simp only: takeWhile_short)
  from batchLoop_failures [OF loop]
  have "FailedUserCreations w1 = FailedUserCreations w + (if completed then 0 else 1)" .
  with sent short w' c show ?thesis by simp
qed

lemma not_dvd_inside_cohort:
  fixes b :: int
  assumes "0 < b" "b dvd e" "e - b + 1 \<le> i" "i \<le> e - 1"
  shows "\<not> b dvd i"
proof
  assume "b dvd i"
  with assms(2) have "b dvd e - i" by (rule dvd_diff)
  moreover have "0 < e - i" "e - i < b" using assms(3,4) by simp_all
  ultimately show False using zdvd_not_zless by blast
qed

lemma cohort_counted:
  assumes b: "0 < userBatches cfg" "userBatches cfg dvd e" and e: "1 \<le> e" "e < 2 ^ 62"
    and run: "forEach (userStep cfg env t) [e - userBatches cfg + 1 .. e] w = Inr w'"
  shows "FailedUserCreations w' + int (length (chUsers w'))
     = FailedUserCreations w + int (length (chUsers w)) + cohortCount cfg env t e"
proof -
  let ?b = "userBatches cfg"
  let ?front = "[e - ?b + 1 .. e - 1]"
  have members: "[e - ?b + 1 .. e] = ?front @ [e]"
    using b(1) by (intro upto_rec2) simp
  with run obtain w1 where
    front: "forEach (userStep cfg env t) ?front w = Inr w1"
    and last: "userStep cfg env t e w1 = Inr w'"
    by (auto simp: forEach_snoc split: sum.splits)
  have "\<forall>u \<in> set ?front. \<not> ?b dvd u"
    using not_dvd_inside_cohort [OF b] by auto
  from cohort_front [OF this front]
  have f1: "FailedUserCreations w1 = FailedUserCreations w
           + int (length (filter (\<lambda>i. \<not> created cfg env t i) ?front))"
    and c1: "chUsers w1 = chUsers w"
    by simp_all
  have count: "cohortCount cfg env t e =
      int (length (filter (\<lambda>i. \<not> created cfg env t i) ?front))
      + (if created cfg env t e
          then int (length (takeWhile (nsReady cfg env t e) [e - ?b + 1 .. e]))
               + (if length (takeWhile (nsReady cfg env t e) [e - ?b + 1 .. e])
                      < length [e - ?b + 1 .. e] then 1 else 0)
          else 1)"
  proof -
    have "filter (\<lambda>i. \<not> created cfg env t i) [e - ?b + 1 .. e]
        = filter (\<lambda>i. \<not> created cfg env t i) ?front
          @ (if created cfg env t e then [] else [e])"
      by (subst members) simp
    then have "int (length (filter (\<lambda>i. \<not> created cfg env t i) [e - ?b + 1 .. e]))
        = int (length (filter (\<lambda>i. \<not> created cfg env t i) ?front))
          + (if created cfg env t e then 0 else 1)"
      by simp
    then show ?thesis unfolding cohortCount_def Let_def by (simp split: if_splits)
  qed
  from userStep_final [OF b e last] f1 c1 show ?thesis
    unfolding count by simp
qed

lemma stage1_counted:
  assumes b: "0 < userBatches cfg" and k: "0 \<le> k"
  shows "k * userBatches cfg < 2 ^ 62 \<Longrightarrow>
     forEach (userStep cfg env t) [1 .. k * userBatches cfg] w = Inr w' \<Longrightarrow>
     FailedUserCreations w' + int (length (chUsers w'))
       = FailedUserCreations w + int (length (chUsers w))
         + sum_list (map (\<lambda>j. cohortCount cfg env t (j * userBatches cfg)) [1 .. k])"
  using k
proof (induction k arbitrary: w' rule: int_ge_induct)
  case base
  then show ?case by simp
next
  case (step m)
  let ?b = "userBatches cfg"
  let ?e = "(m + 1) * ?b"
  have lo: "?e - ?b + 1 = m * ?b + 1" by (simp add: algebra_simps)
  have mb: "0 \<le> m * ?b" using step.hyps b by simp
  have le: "m * ?b \<le> ?e" using b by (simp add: algebra_simps)
  have "[1 .. (m * ?b + 1) - 1] @ [m * ?b + 1 .. ?e] = [1 .. ?e]"
    using mb le by (intro upto_split) auto
  then have split: "[1 .. ?e] = [1 .. m * ?b] @ [?e - ?b + 1 .. ?e]"
    by (simp add: lo)
  from step.prems(2) obtain w1 where
    w1: "forEach (userStep cfg env t) [1 .. m * ?b] w = Inr w1"
    and last: "forEach (userStep cfg env t) [?e - ?b + 1 .. ?e] w1 = Inr w'"
    by (subst (asm) split) (auto simp: forEach_append split: sum.splits)
  have "m * ?b < 2 ^ 62" using step.prems(1) le by linarith
  from step.IH [OF this w1]
  have ih: "FailedUserCreations w1 + int (length (chUsers w1))
       = FailedUserCreations w + int (length (chUsers w))
         + sum_list (map (\<lambda>j. cohortCount cfg env t (j * ?b)) [1 .. m])" .
  have e1: "1 \<le> ?e" using mb b by (simp add: algebra_simps)
  have "?b dvd ?e" by simp
  from cohort_counted [OF b this e1 step.prems(1) last] ih
  have "FailedUserCreations w' + int (length (chUsers w'))
       = FailedUserCreations w + int (length (chUsers w))
         + (sum_list (map (\<lambda>j. cohortCount cfg env t (j * ?b)) [1 .. m])
            + cohortCount cfg env t ?e)"
    by simp
  moreover have "sum_list (map (\<lambda>j. cohortCount cfg env t (j * ?b)) [1 .. m + 1])
      = sum_list (map (\<lambda>j. cohortCount cfg env t (j * ?b)) [1 .. m]) + cohortCount cfg env t ?e"
    using step.hyps by (simp add: upto_snoc1)
  ultimately show ?case by simp
qed

lemma thread_counted:
  assumes b: "0 < userBatches cfg" "userBatches cfg dvd numberOfUsers cfg"
    and run: "userJourneyThread cfg env t w = Inr w'"
  shows "FailedUserCreations w' + int (length (chUsers w'))
     = FailedUserCreations w
       + sum_list (map (\<lambda>k. cohortCount cfg env t (k * userBatches cfg))
           [1 .. numberOfUsers cfg div userBatches cfg])"
proof -
  let ?b = "userBatches cfg" and ?n = "numberOfUsers cfg"
  from userJourneyThread_Inr [OF run] obtain w1 w2 where
    mem: "channelsMade cfg env t"
    and s1: "stage1 cfg env t (w\<lparr>chUsers := [], chPipelines := []\<rparr>) = Inr w1"
    and s2: "stage2 cfg env t w1 = Inr w2"
    and s3: "if waitPipelines cfg then stage3 cfg env t w2 = Inr w' else w' = w2"
    by blast
  from mem have n0: "0 \<le> ?n" and small: "?n < 2 ^ 62"
    by (simp_all add: channelsMade_def maxAlloc_def hchanSize_def)
  have full: "(?n div ?b) * ?b = ?n" using b(2) by simp
  have k: "0 \<le> ?n div ?b" using n0 b(1) by (simp add: pos_imp_zdiv_nonneg_iff)
  from s1 have "forEach (userStep cfg env t) [1 .. (?n div ?b) * ?b]
      (w\<lparr>chUsers := [], chPipelines := []\<rparr>) = Inr w1"
    by (simp add: stage1_def full)
  from stage1_counted [OF b(1) k _ this] small full
  have "FailedUserCreations w1 + int (length (chUsers w1)) = FailedUserCreations w
       + sum_list (map (\<lambda>k. cohortCount cfg env t (k * ?b)) [1 .. ?n div ?b])"
    by simp
  moreover have "userData w' = userData w1"
    using stage2_userData [OF s2] s3 stage3_userData [of cfg env t w2 w']
    by (auto split: if_splits)
  ultimately show ?thesis by (simp add: userData_def)
qed

lemma runThreads_map:
  assumes "runThreads cfg env ts m = Inr ws"
    and "\<And>t m w. t \<in> set ts \<Longrightarrow> userJourneyThread cfg env t (newWorker m) = Inr w
           \<Longrightarrow> f w = g t"
  shows "map f ws = map g ts"
  using assms
proof (induction ts arbitrary: m ws)
  case Nil
  then show ?case by simp
next
  case (Cons t ts)
  from Cons.prems(1) obtain w ws' where
    w: "userJourneyThread cfg env t (newWorker m) = Inr w"
    and rest: "runThreads cfg env ts (errorOccurredMap w) = Inr ws'"
    and ws: "ws = w # ws'"
    by (auto split: sum.splits)
  have "f w = g t" using Cons.prems(2) [of t m w] w by simp
  moreover have "map f ws' = map g ts"
  proof (rule Cons.IH [OF rest])
    fix s k r
    assume "s \<in> set ts" "userJourneyThread cfg env s (newWorker k) = Inr r"
    then show "f r = g s" using Cons.prems(2) [of s k r] by simp
  qed
  ultimately show ?case using ws by simp
qed

lemma takeWhile_snoc_all:
  "\<forall>x \<in> set xs. P x \<Longrightarrow> takeWhile P (xs @ [y]) = xs @ (if P y then [y] else [])"
  by (induction xs) auto

text \<open>A balanced cohort counts for as many as it has members.\<close>

lemma balanced_count:
  assumes b: "0 < userBatches cfg" and bal: "cohortBalanced cfg env t e"
  shows "cohortCount cfg env t e = userBatches cfg"
proof -
  let ?b = "userBatches cfg"
  let ?front = "[e - ?b + 1 .. e - 1]"
  let ?members = "[e - ?b + 1 .. e]"
  have members: "?members = ?front @ [e]"
    using b by (intro upto_rec2) simp
  have len: "int (length ?members) = ?b" "int (length ?front) = ?b - 1" using b by simp_all
  from bal consider
    (none) "\<forall>i \<in> set ?members. \<not> created cfg env t i"
  | (all) "\<forall>i \<in> set ?members. created cfg env t i"
      "\<forall>i \<in> set (butlast ?members). nsReady cfg env t e i"
    by (auto simp: cohortBalanced_def Let_def)
  then show ?thesis
  proof cases
    case none
    then have "filter (\<lambda>i. \<not> created cfg env t i) ?members = ?members"
      by (simp add: filter_id_conv)
    moreover from none b have "\<not> created cfg env t e" by simp
    ultimately show ?thesis
      unfolding cohortCount_def Let_def using len(1) by simp
  next
    case all
    from all(1) have nofail: "filter (\<lambda>i. \<not> created cfg env t i) ?members = []"
      by (simp add: filter_empty_conv)
    from all(1) b have c: "created cfg env t e" by simp
    have "butlast ?members = ?front" by (subst members) simp
    with all(2) have r: "\<forall>i \<in> set ?front. nsReady cfg env t e i" by simp
    have tw: "takeWhile (nsReady cfg env t e) ?members
        = ?front @ (if nsReady cfg env t e e then [e] else [])"
      by (subst members) (rule takeWhile_snoc_all [OF r])
    have "int (length (takeWhile (nsReady cfg env t e) ?members))
        + (if length (takeWhile (nsReady cfg env t e) ?members) < length ?members
           then 1 else 0) = ?b"
    proof (cases "nsReady cfg env t e e")
      case True
      with tw members have full: "takeWhile (nsReady cfg env t e) ?members = ?members"
        by simp
      show ?thesis unfolding full using len(1) by simp
    next
      case False
      with tw have eq: "takeWhile (nsReady cfg env t e) ?members = ?front" by simp
      have "length ?front < length ?members"
        using b by simp
      then show ?thesis unfolding eq using len(2) b by simp
    qed
    with nofail c show ?thesis
      unfolding cohortCount_def Let_def by simp
  qed
qed

lemma batch_of_one_is_balanced:
  "userBatches cfg = 1 \<Longrightarrow> cohortBalanced cfg env t e"
  by (simp add: cohortBalanced_def Let_def)

lemma everyUserReady_is_balanced:
  "everyUserReady env \<Longrightarrow> cohortBalanced cfg env t e"
  by (simp add: cohortBalanced_def Let_def everyUserReady_def created_def nsReady_def)

lemma balanced_accounted:
  assumes "0 < userBatches cfg" "userBatches cfg dvd numberOfUsers cfg"
    and "0 \<le> threadCount cfg" "0 \<le> numberOfUsers cfg"
    and "everyCohortBalanced cfg env"
  shows "accounted cfg env = threadCount cfg * numberOfUsers cfg"
proof -
  let ?b = "userBatches cfg" and ?n = "numberOfUsers cfg"
  have k: "0 \<le> ?n div ?b" using assms(1,4) by (simp add: pos_imp_zdiv_nonneg_iff)
  have const: "sum_list (map (\<lambda>x. c) xs) = int (length xs) * c" for c :: int and xs :: "int list"
    by (induction xs) (simp_all add: algebra_simps)
  have inner: "sum_list (map (\<lambda>k. cohortCount cfg env t (k * ?b)) [1 .. ?n div ?b]) = ?n"
    if "t \<in> set [0 .. threadCount cfg - 1]" for t
  proof -
    have "map (\<lambda>k. cohortCount cfg env t (k * ?b)) [1 .. ?n div ?b]
        = map (\<lambda>k. ?b) [1 .. ?n div ?b]"
      using assms(5) that balanced_count [OF assms(1)]
      by (intro map_cong) (simp_all add: everyCohortBalanced_def)
    then have "sum_list (map (\<lambda>k. cohortCount cfg env t (k * ?b)) [1 .. ?n div ?b])
        = int (length [1 .. ?n div ?b]) * ?b"
      by (simp only: const)
    also have "\<dots> = (?n div ?b) * ?b" using k by simp
    also have "\<dots> = ?n" using assms(2) by simp
    finally show ?thesis .
  qed
  have "map (\<lambda>t. sum_list (map (\<lambda>k. cohortCount cfg env t (k * ?b)) [1 .. ?n div ?b]))
          [0 .. threadCount cfg - 1]
      = map (\<lambda>t. ?n) [0 .. threadCount cfg - 1]"
    using inner by (intro map_cong) simp_all
  then have "accounted cfg env = int (length [0 .. threadCount cfg - 1]) * ?n"
    unfolding accounted_def by (simp only: const)
  then show ?thesis using assms(3) by simp
qed

text \<open>
  Claim C3, amended. In every run that completes with a positive batch size, the
  stage-1 failures of all threads and the ordinals sent on the \<open>chUsers\<close> channels of all
  threads add up to the sum, over the cohorts of all threads, of what each cohort counts
  for: the number of its members whose creation failed and, if its last member was
  created, the number of members forwarded (the longest prefix of the cohort whose
  readiness waits passed), and one more if not all members were forwarded. So the law
  \<open>failures + forwarded = threadCount * numberOfUsers\<close> holds in exactly the completed
  runs in which the cohorts count for \<open>threadCount * numberOfUsers\<close> in all. It holds
  whenever every cohort of every thread is balanced: either the creation of every member
  fails, or the creation of no member fails and the readiness waits made for all members
  but the last pass. With a batch size of 1 every cohort is balanced, and so is every
  cohort when no creation and no readiness wait fails.
\<close>

theorem stage1_accounting:
  assumes "0 < userBatches cfg" and "runSetup cfg st env = Inr (ws, ld)"
  shows "UserCreationFailureCount ld + stage1Forwarded ws = accounted cfg env
     \<and> (UserCreationFailureCount ld + stage1Forwarded ws = threadCount cfg * numberOfUsers cfg
          \<longleftrightarrow> accounted cfg env = threadCount cfg * numberOfUsers cfg)
     \<and> (everyCohortBalanced cfg env \<longrightarrow>
          UserCreationFailureCount ld + stage1Forwarded ws = threadCount cfg * numberOfUsers cfg)
     \<and> (userBatches cfg = 1 \<or> everyUserReady env \<longrightarrow> everyCohortBalanced cfg env)"
proof -
  from runSetup_Inr [OF assms(2)] have t: "0 \<le> threadCount cfg"
    and dvd: "userBatches cfg dvd numberOfUsers cfg"
    and run: "runThreads cfg env [0 .. threadCount cfg - 1] Map.empty = Inr ws"
    and ld: "ld = report cfg ws"
    by simp_all
  let ?f = "\<lambda>w. FailedUserCreations w + int (length (chUsers w))"
  let ?g = "\<lambda>t. sum_list (map (\<lambda>k. cohortCount cfg env t (k * userBatches cfg))
                 [1 .. numberOfUsers cfg div userBatches cfg])"
  have "?f w = ?g t" if "userJourneyThread cfg env t (newWorker m) = Inr w" for t m w
    using thread_counted [OF assms(1) dvd that] by (simp add: newWorker_def)
  with runThreads_map [OF run, of ?f ?g] have "map ?f ws = map ?g [0 .. threadCount cfg - 1]"
    by blast
  then have "sum_list (map ?f ws) = accounted cfg env"
    by (simp only: accounted_def)
  moreover have "sum_list (map ?f ws) = sum_list (map FailedUserCreations ws) + stage1Forwarded ws"
    unfolding stage1Forwarded_def by (induction ws) simp_all
  ultimately have sum: "UserCreationFailureCount ld + stage1Forwarded ws = accounted cfg env"
    using ld by (simp add: report_def Let_def sumFromArray_sum_list)
  have n0: "0 \<le> numberOfUsers cfg" if "ws \<noteq> []"
  proof -
    from that obtain w ws' where "ws = w # ws'" by (cases ws) auto
    with run obtain t m where "userJourneyThread cfg env t (newWorker m) = Inr w"
      by (cases "[0 .. threadCount cfg - 1]") (auto split: sum.splits)
    from userJourneyThread_Inr [OF this] show ?thesis by (simp add: channelsMade_def)
  qed
  have bal: "accounted cfg env = threadCount cfg * numberOfUsers cfg"
    if "everyCohortBalanced cfg env"
  proof (cases "ws = []")
    case True
    with run have "[0 .. threadCount cfg - 1] = []"
      by (cases "[0 .. threadCount cfg - 1]") (auto split: sum.splits)
    then have "threadCount cfg = 0" using t by (simp add: upto_Nil)
    then show ?thesis by (simp add: accounted_def)
  next
    case False
    from balanced_accounted [OF assms(1) dvd t n0 [OF False] that] show ?thesis .
  qed
  have cover: "everyCohortBalanced cfg env" if "userBatches cfg = 1 \<or> everyUserReady env"
    using that batch_of_one_is_balanced [of cfg env] everyUserReady_is_balanced [of env cfg]
    by (auto simp: everyCohortBalanced_def)
  from sum bal cover show ?thesis by auto
qed

text \<open>
  Claim C3 as stated fails. One thread, two users, a batch of two; the first readiness
  wait of the cohort times out. The run completes with one failure counted for the whole
  cohort and nothing forwarded: 1 + 0 is not 1 * 2.
\<close>

theorem stage1_conservation_fails:
  "map_sum id (\<lambda>r. (UserCreationFailureCount (snd r), stage1Forwarded (fst r)))
     (runSetup (exampleConfig 1 2 2 False False) exampleStartup firstNotReady) = Inr (1, 0)
   \<and> threadCount (exampleConfig 1 2 2 False False) * numberOfUsers (exampleConfig 1 2 2 False False) = 2"
  by code_simp

theorem stage1_accounting_witness:
  "\<exists>ws ld. runSetup (exampleConfig 1 2 2 False False) exampleStartup secondNotReady = Inr (ws, ld)
     \<and> UserCreationFailureCount ld + stage1Forwarded ws = 2
     \<and> accounted (exampleConfig 1 2 2 False False) secondNotReady = 2"
proof -
  let ?c = "exampleConfig 1 2 2 False False"
  let ?r = "runSetup ?c exampleStartup secondNotReady"
  have "\<not> isl ?r" by code_simp
  then obtain ws ld where run: "?r = Inr (ws, ld)" by (cases ?r) auto
  have b: "0 < userBatches ?c" by (simp add: exampleConfig_def)
  have bal: "everyCohortBalanced ?c secondNotReady" by code_simp
  have acc: "accounted ?c secondNotReady = 2" by code_simp
  from stage1_accounting [OF b run] bal acc
  have "UserCreationFailureCount ld + stage1Forwarded ws = 2"
    by (simp add: exampleConfig_def)
  with run acc show ?thesis by blast
qed

section \<open>Stage 3 switched off\<close>

lemma thread_pipelineData:
  assumes "\<not> waitPipelines cfg" and "userJourneyThread cfg env t w = Inr w'"
  shows "pipelineData w' = pipelineData w"
proof -
  from userJourneyThread_Inr [OF assms(2)] assms(1) obtain w1 where
    s1: "stage1 cfg env t (w\<lparr>chUsers := [], chPipelines := []\<rparr>) = Inr w1"
    and s2: "stage2 cfg env t w1 = Inr w'"
    by auto
  have "pipelineData (w\<lparr>chUsers := [], chPipelines := []\<rparr>) = pipelineData w"
    by (simp add: pipelineData_def)
  with stage1_pipelineData [OF s1] stage2_pipelineData [OF s2] show ?thesis by simp
qed

lemma wholeSeconds_zeros: "fold (\<lambda>i avg. avg + wholeSeconds i) (replicate n 0) a = a"
  by (induction n) (simp_all add: wholeSeconds_def)

text \<open>
  Claim C7. In every run with \<open>waitPipelines\<close> off that reaches the end of the join,
  whatever the collaborators answered in stages 1 and 2, the pipeline-run duration
  array and the pipeline-failure array hold \<open>threadCount\<close> zeros, the reported
  pipeline failure count is 0 and the reported average pipeline time is zero (or not a
  number when the user count is 0), and no worker's error map, nor the one reported,
  has an entry for code 8 or code 9.
\<close>

theorem stage3_data_untouched_without_waitPipelines:
  assumes "\<not> waitPipelines cfg" and "runSetup cfg st env = Inr (ws, ld)"
  shows "map AveragePipelineRunTimePerUser ws = replicate (nat (threadCount cfg)) 0
     \<and> map FailedPipelineRuns ws = replicate (nat (threadCount cfg)) 0
     \<and> (\<forall>w \<in> set ws. errorOccurredMap w 8 = None \<and> errorOccurredMap w 9 = None)
     \<and> PipelineRunFailureCount ld = 0
     \<and> AverageTimeToRunPipelines ld = (if NumberOfUsers ld = 0 then None else Some 0)
     \<and> ErrorsOccurred ld 8 = None \<and> ErrorsOccurred ld 9 = None"
proof -
  from runSetup_Inr [OF assms(2)] have t: "0 \<le> threadCount cfg"
    and run: "runThreads cfg env [0 .. threadCount cfg - 1] Map.empty = Inr ws"
    and ld: "ld = report cfg ws"
    by simp_all
  let ?Q = "\<lambda>m :: error_map. m 8 = None \<and> m 9 = None"
  let ?P = "\<lambda>w. pipelineData w = (0, 0, None, None)"
  have each: "?P w \<and> ?Q (errorOccurredMap w)"
    if "?Q m" and "userJourneyThread cfg env t (newWorker m) = Inr w" for t m w
    using thread_pipelineData [OF assms(1) that(2)] that(1)
    by (simp add: pipelineData_def newWorker_def)
  have "length ws = length [0 .. threadCount cfg - 1] \<and> (\<forall>w \<in> set ws. ?P w)"
    by (rule runThreads_invariant [OF run, of ?Q ?P]) (use each in auto)
  then have len: "length ws = nat (threadCount cfg)" and all: "\<forall>w \<in> set ws. ?P w"
    using t by simp_all
  have times: "map AveragePipelineRunTimePerUser ws = replicate (length ws) 0"
    using all by (induction ws) (simp_all add: pipelineData_def)
  have fails: "map FailedPipelineRuns ws = replicate (length ws) 0"
    using all by (induction ws) (simp_all add: pipelineData_def)
  have errs: "\<forall>w \<in> set ws. errorOccurredMap w 8 = None \<and> errorOccurredMap w 9 = None"
    using all by (simp add: pipelineData_def)
  have final: "finalErrors ws 8 = None \<and> finalErrors ws 9 = None"
    using errs by (cases "ws = []") (simp_all add: finalErrors_def)
  have "sum_list (map FailedPipelineRuns ws) = 0"
    using all by (induction ws) (simp_all add: pipelineData_def)
  then have count: "PipelineRunFailureCount ld = 0"
    using ld by (simp add: report_def Let_def sumFromArray_sum_list)
  have "fold (\<lambda>i avg. avg + wholeSeconds i) (map AveragePipelineRunTimePerUser ws) 0 = 0"
    unfolding times by (rule wholeSeconds_zeros)
  then have avg: "AverageTimeToRunPipelines ld = (if NumberOfUsers ld = 0 then None else Some 0)"
    using ld by (simp add: report_def Let_def averageDurationFromArray_def)
  from times fails errs final count avg len ld show ?thesis
    by (simp add: report_def Let_def)
qed

theorem stage3_data_untouched_without_waitPipelines_witness:
  "\<exists>ws ld. runSetup (exampleConfig 2 4 2 False False) exampleStartup exampleCollab = Inr (ws, ld)
     \<and> map AveragePipelineRunTimePerUser ws = [0, 0]
     \<and> map FailedPipelineRuns ws = [0, 0]
     \<and> PipelineRunFailureCount ld = 0
     \<and> ErrorsOccurred ld 8 = None \<and> ErrorsOccurred ld 9 = None"
proof -
  let ?c = "exampleConfig 2 4 2 False False"
  let ?r = "runSetup ?c exampleStartup exampleCollab"
  have "\<not> isl ?r" by code_simp
  then obtain ws ld where run: "?r = Inr (ws, ld)" by (cases ?r) auto
  have off: "\<not> waitPipelines ?c" by (simp add: exampleConfig_def)
  have two: "replicate (nat (threadCount ?c)) (0::int) = [0, 0]"
    by (simp add: exampleConfig_def numeral_2_eq_2)
  from stage3_data_untouched_without_waitPipelines [OF off run] two run
  show ?thesis by auto
qed

section \<open>Stage 2\<close>

lemma resourceFailure_range:
  "resourceFailure cfg env t u = Some c \<Longrightarrow> c \<in> {3, 4, 5, 6, 7}"
  unfolding resourceFailure_def Let_def
  by (auto split: if_splits sum.splits)

lemma logError_counts:
  "\<exists>m'. logError False c msg m = Inr m' \<and> errorCount m' c = errorCount m c + 1
      \<and> (\<forall>k. k \<noteq> c \<longrightarrow> m' k = m k)"
  by (auto simp: logError_def Let_def errorCount_def split: option.splits)

lemma failResource_counts:
  assumes "\<not> failFast cfg"
  shows "\<exists>m. failResource cfg c msg w =
        Inr (w\<lparr>errorOccurredMap := m, FailedResourceCreations := FailedResourceCreations w + 1\<rparr>)
      \<and> errorCount m c = errorCount (errorOccurredMap w) c + 1
      \<and> (\<forall>k. k \<noteq> c \<longrightarrow> m k = errorOccurredMap w k)"
proof -
  from logError_counts [of c msg "errorOccurredMap w"] obtain m where
    "logError False c msg (errorOccurredMap w) = Inr m"
    "errorCount m c = errorCount (errorOccurredMap w) c + 1"
    "\<forall>k. k \<noteq> c \<longrightarrow> m k = errorOccurredMap w k"
    by blast
  with assms show ?thesis by (auto simp: failResource_def)
qed

lemma resourceStep_failure:
  assumes "\<not> failFast cfg" and "resourceFailure cfg env t u = Some c"
  shows "\<exists>m. resourceStep cfg env t u w =
        Inr (w\<lparr>errorOccurredMap := m, FailedResourceCreations := FailedResourceCreations w + 1\<rparr>)
      \<and> errorCount m c = errorCount (errorOccurredMap w) c + 1
      \<and> (\<forall>k. k \<noteq> c \<longrightarrow> m k = errorOccurredMap w k)"
  using assms(2) failResource_counts [OF assms(1), of c _ w]
  unfolding resourceStep_def resourceFailure_def Let_def
  by (auto split: if_splits sum.splits option.splits)

lemma resourceStep_success:
  assumes "userBatches cfg \<noteq> 0" and "resourceFailure cfg env t u = None"
    and "waitPipelines cfg \<or> int (length (chPipelines w)) < numberOfUsers cfg"
  shows "resourceStep cfg env t u w =
        Inr (w\<lparr>AverageResourceCreationTimePerUser :=
                 AverageResourceCreationTimePerUser w
          + (ResourceCreationTime env t u + sleeps cfg env t u),
               chPipelines := chPipelines w @ [u]\<rparr>)"
  using assms
  unfolding resourceStep_def resourceFailure_def Let_def sendPipelines_def
  by (auto split: if_splits sum.splits option.splits)

lemma resourceLoop:
  assumes ff: "\<not> failFast cfg" and b: "userBatches cfg \<noteq> 0"
  shows "waitPipelines cfg \<or> int (length (chPipelines w)) + int (length xs) \<le> numberOfUsers cfg \<Longrightarrow>
     \<exists>w'. forEach (resourceStep cfg env t) xs w = Inr w'
       \<and> chPipelines w' = chPipelines w @ filter (\<lambda>u. resourceFailure cfg env t u = None) xs
       \<and> FailedResourceCreations w' = FailedResourceCreations w
            + int (length (filter (\<lambda>u. resourceFailure cfg env t u \<noteq> None) xs))
       \<and> (\<forall>c. errorCount (errorOccurredMap w') c = errorCount (errorOccurredMap w) c
            + int (length (filter (\<lambda>u. resourceFailure cfg env t u = Some c) xs)))"
proof (induction xs arbitrary: w)
  case Nil
  then show ?case by simp
next
  case (Cons u xs)
  show ?case
  proof (cases "resourceFailure cfg env t u")
    case None
    let ?w1 = "w\<lparr>AverageResourceCreationTimePerUser :=
                 AverageResourceCreationTimePerUser w
          + (ResourceCreationTime env t u + sleeps cfg env t u),
               chPipelines := chPipelines w @ [u]\<rparr>"
    from Cons.prems have room: "waitPipelines cfg \<or> int (length (chPipelines w)) < numberOfUsers cfg"
      by auto
    have step: "resourceStep cfg env t u w = Inr ?w1"
      using b None room by (rule resourceStep_success)
    from Cons.prems have "waitPipelines cfg \<or>
        int (length (chPipelines ?w1)) + int (length xs) \<le> numberOfUsers cfg"
      by auto
    from Cons.IH [OF this] obtain w' where
      "forEach (resourceStep cfg env t) xs ?w1 = Inr w'"
      "chPipelines w' = chPipelines ?w1 @ filter (\<lambda>u. resourceFailure cfg env t u = None) xs"
      "FailedResourceCreations w' = FailedResourceCreations ?w1
            + int (length (filter (\<lambda>u. resourceFailure cfg env t u \<noteq> None) xs))"
      "\<forall>c. errorCount (errorOccurredMap w') c = errorCount (errorOccurredMap ?w1) c
            + int (length (filter (\<lambda>u. resourceFailure cfg env t u = Some c) xs))"
      by blast
    with step None show ?thesis by simp
  next
    case (Some c)
    from resourceStep_failure [OF ff Some, of w] obtain m where
      step: "resourceStep cfg env t u w =
        Inr (w\<lparr>errorOccurredMap := m, FailedResourceCreations := FailedResourceCreations w + 1\<rparr>)"
      and mc: "errorCount m c = errorCount (errorOccurredMap w) c + 1"
      and mk: "\<forall>k. k \<noteq> c \<longrightarrow> m k = errorOccurredMap w k"
      by blast
    let ?w1 = "w\<lparr>errorOccurredMap := m, FailedResourceCreations := FailedResourceCreations w + 1\<rparr>"
    from Cons.prems have "waitPipelines cfg \<or>
        int (length (chPipelines ?w1)) + int (length xs) \<le> numberOfUsers cfg"
      by auto
    from Cons.IH [OF this] obtain w' where
      run: "forEach (resourceStep cfg env t) xs ?w1 = Inr w'"
      and p: "chPipelines w' = chPipelines ?w1 @ filter (\<lambda>u. resourceFailure cfg env t u = None) xs"
      and f: "FailedResourceCreations w' = FailedResourceCreations ?w1
            + int (length (filter (\<lambda>u. resourceFailure cfg env t u \<noteq> None) xs))"
      and e: "\<forall>c. errorCount (errorOccurredMap w') c = errorCount (errorOccurredMap ?w1) c
            + int (length (filter (\<lambda>u. resourceFailure cfg env t u = Some c) xs))"
      by blast
    have counts: "errorCount (errorOccurredMap w') k = errorCount (errorOccurredMap w) k
            + int (length (filter (\<lambda>u. resourceFailure cfg env t u = Some k) (u # xs)))" for k
    proof (cases "k = c")
      case True
      with e mc Some show ?thesis by simp
    next
      case False
      with mk have "errorCount m k = errorCount (errorOccurredMap w) k"
        by (simp add: errorCount_def)
      with e False Some show ?thesis by simp
    qed
    from step run p f Some counts show ?thesis by simp
  qed
qed

text \<open>
  Claim C6, amended. With \<open>failFast\<close> off, stage 2 runs to the end of its queue
  whatever fails: a user for whom one of the five steps fails is left out of
  \<open>chPipelines\<close>, adds exactly 1 to the thread's resource-failure counter and exactly 1
  to the count of the code of the step that failed, a code from 3 to 7; every other
  queued user is processed as usual and forwarded. (The batch size is not 0 and the
  send finds room, as in every worker the orchestrator starts.)
\<close>

theorem stage2_failures_are_local:
  assumes "\<not> failFast cfg" and "userBatches cfg \<noteq> 0"
    and "waitPipelines cfg \<or>
         int (length (chPipelines w)) + int (length (chUsers w)) \<le> numberOfUsers cfg"
  shows "\<exists>w'. stage2 cfg env threadIndex w = Inr w'
       \<and> chPipelines w' = chPipelines w
            @ filter (\<lambda>u. resourceFailure cfg env threadIndex u = None) (chUsers w)
       \<and> FailedResourceCreations w' = FailedResourceCreations w
            + int (length (filter (\<lambda>u. resourceFailure cfg env threadIndex u \<noteq> None) (chUsers w)))
       \<and> (\<forall>c. errorCount (errorOccurredMap w') c = errorCount (errorOccurredMap w) c
            + int (length (filter (\<lambda>u. resourceFailure cfg env threadIndex u = Some c) (chUsers w))))
       \<and> (\<forall>u c. resourceFailure cfg env threadIndex u = Some c \<longrightarrow> 3 \<le> c \<and> c \<le> 7)"
proof -
  from resourceLoop [OF assms(1,2), of w "chUsers w" env threadIndex] assms(3)
  obtain w' where "forEach (resourceStep cfg env threadIndex) (chUsers w) w = Inr w'"
    and "chPipelines w' = chPipelines w
            @ filter (\<lambda>u. resourceFailure cfg env threadIndex u = None) (chUsers w)"
    and "FailedResourceCreations w' = FailedResourceCreations w
            + int (length (filter (\<lambda>u. resourceFailure cfg env threadIndex u \<noteq> None) (chUsers w)))"
    and "\<forall>c. errorCount (errorOccurredMap w') c = errorCount (errorOccurredMap w) c
            + int (length (filter (\<lambda>u. resourceFailure cfg env threadIndex u = Some c) (chUsers w)))"
    by blast
  moreover have "3 \<le> c \<and> c \<le> 7" if "resourceFailure cfg env threadIndex u = Some c" for u c
    using resourceFailure_range [OF that] by auto
  ultimately show ?thesis unfolding stage2_def by blast
qed

text \<open>
  Claim C6 as stated fails with \<open>failFast\<close> on. Four users are queued and the registry
  credential of user 3 cannot be created: \<open>logError\<close> ends the process, and user 4 is
  never processed.
\<close>

theorem stage2_stops_with_failFast:
  "map_sum id chPipelines
     (stage2 (exampleConfig 1 4 2 True True) secretDenied 0
        ((newWorker Map.empty)\<lparr>chUsers := [1, 2, 3, 4]\<rparr>))
   = Inl (Fatal ''Error #3: Unable to create the secret redhat-appstudio-registry-pull-secret in namespace testuser-0003-tenant: denied'')"
  by code_simp

theorem stage2_failures_are_local_witness:
  "\<exists>w'. stage2 (exampleConfig 1 4 2 True False) secretDenied 0
            ((newWorker Map.empty)\<lparr>chUsers := [1, 2, 3, 4]\<rparr>) = Inr w'
      \<and> chPipelines w' = [1, 2, 4]
      \<and> FailedResourceCreations w' = 1
      \<and> errorCount (errorOccurredMap w') 3 = 1"
proof -
  let ?c = "exampleConfig 1 4 2 True False"
  let ?w = "(newWorker Map.empty)\<lparr>chUsers := [1, 2, 3, 4]\<rparr>"
  have a: "\<not> failFast ?c" "userBatches ?c \<noteq> 0"
    "waitPipelines ?c \<or> int (length (chPipelines ?w)) + int (length (chUsers ?w)) \<le> numberOfUsers ?c"
    by (simp_all add: exampleConfig_def)
  have ok: "filter (\<lambda>u. resourceFailure ?c secretDenied 0 u = None) [1, 2, 3, 4] = [1, 2, 4]"
    by code_simp
  have bad: "filter (\<lambda>u. resourceFailure ?c secretDenied 0 u \<noteq> None) [1, 2, 3, 4] = [3]"
    by code_simp
  have three: "filter (\<lambda>u. resourceFailure ?c secretDenied 0 u = Some 3) [1, 2, 3, 4] = [3]"
    by code_simp
  from stage2_failures_are_local [OF a, of secretDenied 0] ok bad three
  show ?thesis by (auto simp: newWorker_def errorCount_def)
qed

section \<open>The channels never fill up\<close>

lemma logError_Inl: "logError ff c msg m = Inl a \<Longrightarrow> ff \<and> (\<exists>s. a = Fatal s)"
  by (auto simp: logError_def Let_def split: if_splits option.splits)

lemma failResource_Inl: "failResource cfg c msg w = Inl a \<Longrightarrow> a \<noteq> Deadlock"
  by (auto simp: failResource_def split: sum.splits dest: logError_Inl)

lemma forEach_Inl:
  "forEach body xs s = Inl a \<Longrightarrow> \<exists>x r. x \<in> set xs \<and> body x r = Inl a"
proof (induction xs arbitrary: s)
  case Nil
  then show ?case by simp
next
  case (Cons x xs)
  show ?case
  proof (cases "body x s")
    case (Inl b)
    with Cons.prems show ?thesis by auto
  next
    case (Inr r)
    with Cons.prems have "forEach body xs r = Inl a" by simp
    from Cons.IH [OF this] show ?thesis by auto
  qed
qed

lemma batchLoop_chPipelines:
  "batchLoop cfg env t u xs w = Inr (completed, w') \<Longrightarrow> chPipelines w' = chPipelines w"
proof (induction xs arbitrary: w)
  case Nil
  then show ?case by simp
next
  case (Cons i rest)
  show ?case
  proof (cases "nsReady cfg env t u i")
    case True
    with Cons.prems have "batchLoop cfg env t u rest (w\<lparr>chUsers := chUsers w @ [i]\<rparr>) = Inr (completed, w')"
      by (simp add: nsReady_def Let_def)
    from Cons.IH [OF this] show ?thesis by simp
  next
    case False
    then obtain err where "wait_ForNamespace env t u i
        (usernamePrefix cfg @ ''-'' @ fmt_04d (userNumber cfg t u) @ ''-tenant'') = Some err"
      by (auto simp: nsReady_def)
    with Cons.prems obtain msg where "failUser cfg 2 msg w = Inr w'"
      by (auto simp: Let_def split: sum.splits)
    then show ?thesis by (auto dest: failUser_Inr)
  qed
qed

lemma userStep_length:
  assumes run: "userStep cfg env t u w = Inr w'" and u: "1 \<le> u" "u < 2 ^ 62"
  shows "int (length (chUsers w')) \<le> int (length (chUsers w))
           + (if 0 < userBatches cfg \<and> userBatches cfg dvd u then userBatches cfg else 0)
         \<and> chPipelines w' = chPipelines w"
proof -
  let ?b = "userBatches cfg"
  from userStep_Inr [OF run] consider
    (failed) msg where "failUser cfg 1 msg w = Inr w'"
  | (batch) completed w1 where
      "batchLoop cfg env t u [go_int (go_int (u - ?b) + 1) .. u] w = Inr (completed, w1)"
      "go_rem u ?b = 0"
      "w' = w1 \<or> w' = w1\<lparr>AverageUserCreationTime :=
                   AverageUserCreationTime w1 + UserCreationTime env t u\<rparr>"
  | (plain) "w' = w\<lparr>AverageUserCreationTime :=
                   AverageUserCreationTime w + UserCreationTime env t u\<rparr>"
    by blast
  then show ?thesis
  proof cases
    case failed
    then obtain m where
      "w' = w\<lparr>errorOccurredMap := m, FailedUserCreations := FailedUserCreations w + 1\<rparr>"
      by (auto dest: failUser_Inr)
    then show ?thesis by simp
  next
    case batch
    from batch(2) have dvd: "?b dvd u" by (simp add: go_rem_eq_0_iff)
    with u(1) have nz: "?b \<noteq> 0" by auto
    have lo: "go_int (go_int (u - ?b) + 1) = u - ?b + 1"
      using dvd nz u by (rule cohort_lower_dvd)
    from batchLoop_chUsers [OF batch(1)] lo
    have "chUsers w1 = chUsers w @ takeWhile (nsReady cfg env t u) [u - ?b + 1 .. u]"
      by simp
    then have "length (chUsers w1) \<le> length (chUsers w) + length [u - ?b + 1 .. u]"
      using length_takeWhile_le [of "nsReady cfg env t u" "[u - ?b + 1 .. u]"]
      by simp
    also have "length [u - ?b + 1 .. u] = nat ?b"
      by simp
    finally have "length (chUsers w1) \<le> length (chUsers w) + nat ?b" .
    then have "int (length (chUsers w1)) \<le> int (length (chUsers w)) + int (nat ?b)"
      by (simp only: of_nat_le_iff [symmetric] of_nat_add)
    moreover have "int (nat ?b) = (if 0 < ?b \<and> ?b dvd u then ?b else 0)"
      using dvd by simp
    moreover have "chPipelines w1 = chPipelines w"
      using batch(1) by (rule batchLoop_chPipelines)
    ultimately show ?thesis
      using batch(3) by auto
  next
    case plain
    then show ?thesis by simp
  qed
qed

lemma stage1_length:
  assumes n: "0 \<le> n"
  shows "n < 2 ^ 62 \<Longrightarrow> forEach (userStep cfg env t) [1 .. n] w = Inr w' \<Longrightarrow>
     int (length (chUsers w')) \<le> int (length (chUsers w))
        + (if 0 < userBatches cfg then userBatches cfg * (n div userBatches cfg) else 0)
     \<and> chPipelines w' = chPipelines w"
  using n
proof (induction n arbitrary: w' rule: int_ge_induct)
  case base
  then show ?case by simp
next
  case (step m)
  let ?b = "userBatches cfg"
  have m1: "1 \<le> m + 1" using step.hyps by simp
  have m: "m < 2 ^ 62" using step.prems(1) by simp
  have "[1 .. m + 1] = [1 .. m] @ [m + 1]"
    using step.hyps by (rule upto_snoc1)
  with step.prems(2) obtain w1 where
    w1: "forEach (userStep cfg env t) [1 .. m] w = Inr w1"
    and last: "userStep cfg env t (m + 1) w1 = Inr w'"
    by (auto simp: forEach_snoc split: sum.splits)
  define k where "k = (if 0 < ?b \<and> ?b dvd m + 1 then ?b else 0)"
  define q where "q = (if 0 < ?b then ?b * (m div ?b) else 0)"
  define q' where "q' = (if 0 < ?b then ?b * ((m + 1) div ?b) else 0)"
  from step.IH [OF m w1]
  have ih: "int (length (chUsers w1)) \<le> int (length (chUsers w)) + q"
    and p1: "chPipelines w1 = chPipelines w"
    by (simp_all add: q_def)
  from userStep_length [OF last m1 step.prems(1)]
  have st: "int (length (chUsers w')) \<le> int (length (chUsers w1)) + k"
    and p2: "chPipelines w' = chPipelines w1"
    by (simp_all add: k_def)
  have "q + k = q'"
  proof (cases "0 < ?b")
    case False
    then show ?thesis by (simp add: k_def q_def q'_def)
  next
    case b: True
    show ?thesis
    proof (cases "?b dvd m + 1")
      case True
      from div_step_dvd [OF b step.hyps True] True b show ?thesis
        by (simp add: k_def q_def q'_def)
    next
      case False
      from div_step_not_dvd [OF b step.hyps False] False b show ?thesis
        by (simp add: k_def q_def q'_def)
    qed
  qed
  with ih st have "int (length (chUsers w')) \<le> int (length (chUsers w)) + q'"
    by linarith
  with p1 p2 show ?case by (simp add: q'_def)
qed

lemma mult_div_le_int:
  fixes a b :: int
  assumes "0 < b"
  shows "b * (a div b) \<le> a"
proof -
  have "b * (a div b) + a mod b = a" by simp
  moreover have "0 \<le> a mod b" using assms by simp
  ultimately show ?thesis by linarith
qed

lemma stage1_sent:
  assumes "channelsMade cfg env t"
    and "stage1 cfg env t (w\<lparr>chUsers := [], chPipelines := []\<rparr>) = Inr w1"
  shows "int (length (chUsers w1)) \<le> numberOfUsers cfg \<and> chPipelines w1 = []"
proof -
  let ?b = "userBatches cfg" and ?n = "numberOfUsers cfg"
  from assms(1) have n0: "0 \<le> ?n" and small: "?n < 2 ^ 62"
    by (simp_all add: channelsMade_def maxAlloc_def hchanSize_def)
  from stage1_length [OF n0 small, of cfg env t "w\<lparr>chUsers := [], chPipelines := []\<rparr>" w1]
    assms(2)
  have le: "int (length (chUsers w1)) \<le> (if 0 < ?b then ?b * (?n div ?b) else 0)"
    and empty: "chPipelines w1 = []"
    by (simp_all add: stage1_def)
  have "(if 0 < ?b then ?b * (?n div ?b) else 0) \<le> ?n"
    using mult_div_le_int [of ?b ?n] n0 by simp
  with le empty show ?thesis by simp
qed

text \<open>What ends the process inside a stage: an error logged with \<open>failFast\<close> on, or the
  remainder by a batch size of 0.\<close>

lemma failUser_Fatal: "failUser cfg c msg w = Inl a \<Longrightarrow> failFast cfg \<and> (\<exists>s. a = Fatal s)"
  by (auto simp: failUser_def split: sum.splits dest: logError_Inl)

lemma failResource_Fatal:
  "failResource cfg c msg w = Inl a \<Longrightarrow> failFast cfg \<and> (\<exists>s. a = Fatal s)"
  by (auto simp: failResource_def split: sum.splits dest: logError_Inl)

lemma batchLoop_Fatal:
  "batchLoop cfg env t u xs w = Inl a \<Longrightarrow> failFast cfg \<and> (\<exists>s. a = Fatal s)"
proof (induction xs arbitrary: w)
  case Nil
  then show ?case by simp
next
  case (Cons i rest)
  then show ?case
    by (auto simp: Let_def split: option.splits sum.splits dest: failUser_Fatal)
qed

lemma userStep_ends:
  assumes "userStep cfg env t u w = Inl a"
  shows "(failFast cfg \<and> (\<exists>s. a = Fatal s))
     \<or> (userBatches cfg = 0 \<and> a = Panic ''integer divide by zero'')"
  using assms unfolding userStep_def
  by (auto split: option.splits sum.splits if_splits prod.splits
        dest: failUser_Fatal batchLoop_Fatal)

lemma stage1_ends:
  assumes "stage1 cfg env t w = Inl a"
  shows "(failFast cfg \<and> (\<exists>s. a = Fatal s))
     \<or> (userBatches cfg = 0 \<and> a = Panic ''integer divide by zero'')"
proof -
  from assms obtain x r where "userStep cfg env t x r = Inl a"
    unfolding stage1_def by (auto dest!: forEach_Inl)
  then show ?thesis by (rule userStep_ends)
qed

lemma resourceStep_ends:
  assumes "resourceStep cfg env t u w = Inl a"
  shows "a = Deadlock \<or> (failFast cfg \<and> (\<exists>s. a = Fatal s))
     \<or> (userBatches cfg = 0 \<and> a = Panic ''integer divide by zero'')"
  using assms unfolding resourceStep_def Let_def sendPipelines_def
  by (auto split: option.splits sum.splits if_splits dest: failResource_Fatal)

lemma stage2_ends:
  assumes "stage2 cfg env t w = Inl a"
  shows "a = Deadlock \<or> (failFast cfg \<and> (\<exists>s. a = Fatal s))
     \<or> (userBatches cfg = 0 \<and> a = Panic ''integer divide by zero'')"
proof -
  from assms obtain x r where "resourceStep cfg env t x r = Inl a"
    unfolding stage2_def by (auto dest!: forEach_Inl)
  then show ?thesis by (rule resourceStep_ends)
qed

lemma resourceStep_Inl:
  assumes "resourceStep cfg env t u w = Inl Deadlock"
  shows "\<not> waitPipelines cfg \<and> numberOfUsers cfg \<le> int (length (chPipelines w))"
  using assms unfolding resourceStep_def Let_def sendPipelines_def
  by (auto split: option.splits sum.splits if_splits dest: failResource_Inl)

lemma resourceStep_chPipelines:
  assumes "resourceStep cfg env t u w = Inr w'"
  shows "length (chPipelines w') \<le> length (chPipelines w) + 1"
  using resourceStep_Inr [OF assms]
  by (auto dest!: failResource_Inr sendPipelines_Inr)

lemma resourceLoop_no_deadlock:
  "int (length (chPipelines w)) + int (length xs) \<le> numberOfUsers cfg \<Longrightarrow>
     forEach (resourceStep cfg env t) xs w \<noteq> Inl Deadlock"
proof (induction xs arbitrary: w)
  case Nil
  then show ?case by simp
next
  case (Cons u xs)
  show ?case
  proof (cases "resourceStep cfg env t u w")
    case (Inl a)
    have "a \<noteq> Deadlock"
    proof
      assume "a = Deadlock"
      with Inl resourceStep_Inl [of cfg env t u w] Cons.prems show False by simp
    qed
    with Inl show ?thesis by simp
  next
    case (Inr w1)
    from resourceStep_chPipelines [OF Inr] Cons.prems
    have "int (length (chPipelines w1)) + int (length xs) \<le> numberOfUsers cfg" by simp
    from Cons.IH [OF this] Inr show ?thesis by simp
  qed
qed

lemma resourceLoop_chPipelines:
  "forEach (resourceStep cfg env t) xs w = Inr w' \<Longrightarrow>
     length (chPipelines w') \<le> length (chPipelines w) + length xs"
proof (induction xs arbitrary: w)
  case Nil
  then show ?case by simp
next
  case (Cons u xs)
  from Cons.prems obtain w1 where st: "resourceStep cfg env t u w = Inr w1"
    and rest: "forEach (resourceStep cfg env t) xs w1 = Inr w'"
    by (auto split: sum.splits)
  from resourceStep_chPipelines [OF st] Cons.IH [OF rest] show ?case by simp
qed

lemma makechan_Inr: "makechan (chanMemory env t) (numberOfUsers cfg) = Inr () \<longleftrightarrow> channelsMade cfg env t"
  by (auto simp: makechan_def channelsMade_def)

lemma makechan_Inl:
  "makechan (chanMemory env t) (numberOfUsers cfg) = Inl a \<Longrightarrow>
     \<not> channelsMade cfg env t \<and> a \<noteq> Deadlock"
  by (auto simp: makechan_def channelsMade_def split: if_splits)

text \<open>
  Claim C10, amended. With \<open>waitPipelines\<close> off nobody receives from \<open>chPipelines\<close>,
  whose capacity is \<open>numberOfUsers\<close>. Whatever the batch size, stage 1 sends at most
  \<open>numberOfUsers\<close> ordinals on \<open>chUsers\<close> and stage 2 at most as many on \<open>chPipelines\<close>,
  so no send blocks and the worker never ends in a deadlock. The worker reaches its join
  unless the process ends first, and the process ends in the worker only if the channels
  cannot be allocated, or an error is logged with \<open>failFast\<close> on, or the batch size is 0
  and the remainder panics. A worker whose channels are allocated, with a batch size
  other than 0 and \<open>failFast\<close> off, always reaches its join.
\<close>

theorem no_deadlock_without_waitPipelines:
  assumes off: "\<not> waitPipelines cfg"
  shows "userJourneyThread cfg env threadIndex w \<noteq> Inl Deadlock
     \<and> (\<forall>a. userJourneyThread cfg env threadIndex w = Inl a \<longrightarrow>
          \<not> channelsMade cfg env threadIndex
          \<or> (failFast cfg \<and> (\<exists>s. a = Fatal s))
          \<or> (userBatches cfg = 0 \<and> a = Panic ''integer divide by zero''))
     \<and> (\<forall>w'. userJourneyThread cfg env threadIndex w = Inr w' \<longrightarrow>
          int (length (chUsers w')) \<le> numberOfUsers cfg
          \<and> length (chPipelines w') \<le> length (chUsers w'))
     \<and> (channelsMade cfg env threadIndex \<and> userBatches cfg \<noteq> 0 \<and> \<not> failFast cfg \<longrightarrow>
          (\<exists>w'. userJourneyThread cfg env threadIndex w = Inr w'))"
proof -
  let ?run = "userJourneyThread cfg env threadIndex w"
  let ?w0 = "w\<lparr>chUsers := [], chPipelines := []\<rparr>"
  let ?ends = "\<lambda>a. \<not> channelsMade cfg env threadIndex
          \<or> (failFast cfg \<and> (\<exists>s. a = Fatal s))
          \<or> (userBatches cfg = 0 \<and> a = Panic ''integer divide by zero'')"
  have inl: "a \<noteq> Deadlock \<and> ?ends a" if run: "?run = Inl a" for a
  proof (cases "makechan (chanMemory env threadIndex) (numberOfUsers cfg)")
    case (Inl b)
    with run have "a = b" by (simp add: userJourneyThread_def)
    with makechan_Inl [OF Inl] show ?thesis by simp
  next
    case (Inr x)
    then have made: "channelsMade cfg env threadIndex"
      by (simp add: makechan_Inr [symmetric])
    show ?thesis
    proof (cases "stage1 cfg env threadIndex ?w0")
      case (Inl b)
      with run Inr have "a = b" by (simp add: userJourneyThread_def)
      with stage1_ends [OF Inl] show ?thesis by auto
    next
      case s1: (Inr w1)
      from stage1_sent [OF made s1] have
        "int (length (chPipelines w1)) + int (length (chUsers w1)) \<le> numberOfUsers cfg"
        by simp
      then have nd: "stage2 cfg env threadIndex w1 \<noteq> Inl Deadlock"
        unfolding stage2_def by (rule resourceLoop_no_deadlock)
      from run Inr s1 off have s2: "stage2 cfg env threadIndex w1 = Inl a"
        by (auto simp: userJourneyThread_def split: sum.splits)
      with nd have "a \<noteq> Deadlock" by auto
      with stage2_ends [OF s2] show ?thesis by auto
    qed
  qed
  have inr: "int (length (chUsers w')) \<le> numberOfUsers cfg
          \<and> length (chPipelines w') \<le> length (chUsers w')" if run: "?run = Inr w'" for w'
  proof -
    from userJourneyThread_Inr [OF run] off obtain w1 where
      made: "channelsMade cfg env threadIndex"
      and s1: "stage1 cfg env threadIndex ?w0 = Inr w1"
      and s2: "stage2 cfg env threadIndex w1 = Inr w'"
      by auto
    from stage1_sent [OF made s1] have len: "int (length (chUsers w1)) \<le> numberOfUsers cfg"
      and empty: "chPipelines w1 = []" by simp_all
    from stage2_userData [OF s2] have same: "chUsers w' = chUsers w1"
      by (simp add: userData_def)
    from resourceLoop_chPipelines [of cfg env threadIndex "chUsers w1" w1 w'] s2 empty
    have "length (chPipelines w') \<le> length (chUsers w1)"
      by (simp add: stage2_def)
    with len same show ?thesis by simp
  qed
  have joins: "\<exists>w'. ?run = Inr w'"
    if "channelsMade cfg env threadIndex" "userBatches cfg \<noteq> 0" "\<not> failFast cfg"
  proof (cases ?run)
    case (Inl a)
    with inl [OF Inl] that show ?thesis by auto
  next
    case (Inr w')
    then show ?thesis by blast
  qed
  from inl inr joins show ?thesis by blast
qed

text \<open>
  Claim C10 as stated fails with \<open>failFast\<close> on. One thread, four users, batches of
  two, \<open>waitPipelines\<close> off; the registry credential of user 3 cannot be created.
  \<open>logError\<close> ends the process in stage 2: the worker never reaches its join.
\<close>

theorem worker_ends_before_join_with_failFast:
  "map_sum id chPipelines
     (userJourneyThread (exampleConfig 1 4 2 False True) secretDenied 0 (newWorker Map.empty))
   = Inl (Fatal ''Error #3: Unable to create the secret redhat-appstudio-registry-pull-secret in namespace testuser-0003-tenant: denied'')
   \<and> \<not> waitPipelines (exampleConfig 1 4 2 False True)"
  by code_simp

theorem no_deadlock_without_waitPipelines_witness:
  "userJourneyThread (exampleConfig 1 4 2 False False) secretDenied 0 (newWorker Map.empty)
     \<noteq> Inl Deadlock
   \<and> (\<exists>w'. userJourneyThread (exampleConfig 1 4 2 False False) secretDenied 0
             (newWorker Map.empty) = Inr w'
         \<and> int (length (chUsers w')) \<le> 4 \<and> length (chPipelines w') \<le> length (chUsers w'))"
proof -
  let ?c = "exampleConfig 1 4 2 False False"
  have off: "\<not> waitPipelines ?c" by (simp add: exampleConfig_def)
  have made: "channelsMade ?c secretDenied 0 \<and> userBatches ?c \<noteq> 0 \<and> \<not> failFast ?c"
    by (simp add: exampleConfig_def channelsMade_def secretDenied_def exampleCollab_def
          maxAlloc_def hchanSize_def)
  have n: "numberOfUsers ?c = 4" by (simp add: exampleConfig_def)
  from no_deadlock_without_waitPipelines [OF off, of secretDenied 0 "newWorker Map.empty"]
    made n
  show ?thesis by auto
qed

section \<open>The check of the batch size\<close>

lemma initialize_Inr:
  "initialize cfg st = Inr () \<longleftrightarrow>
     logReady st \<and> userBatches cfg \<noteq> 0 \<and> go_rem (numberOfUsers cfg) (userBatches cfg) = 0
     \<and> clusterReady st"
  unfolding initialize_def logReady_def clusterReady_def setKlogFlag_def
  by (auto split: option.splits sum.splits if_splits)

lemma initialize_batch:
  "initialize cfg st = Inl (Fatal ''Please Provide Correct Batches!'') \<longleftrightarrow>
     logReady st \<and> userBatches cfg \<noteq> 0 \<and> go_rem (numberOfUsers cfg) (userBatches cfg) \<noteq> 0"
  unfolding initialize_def logReady_def setKlogFlag_def
  by (auto split: option.splits sum.splits if_splits)

lemma initialize_healthy:
  assumes "healthy st" and "userBatches cfg \<noteq> 0"
  shows "initialize cfg st =
     (if go_rem (numberOfUsers cfg) (userBatches cfg) \<noteq> 0
      then Inl (Fatal ''Please Provide Correct Batches!'') else Inr ())"
  using assms initialize_Inr [of cfg st] initialize_batch [of cfg st]
  by (auto simp: healthy_def)

lemma makeslice_Inr:
  "makeslice (sliceMemory st) (threadCount cfg) = Inr () \<and> 0 \<le> wgCounter (threadCount cfg)
     \<longleftrightarrow> threadsStartable cfg st"
  by (auto simp: makeslice_def threadsStartable_def)

lemma spawn_Inr:
  "spawn cfg st = Inr threads \<longleftrightarrow>
     initialize cfg st = Inr () \<and> threadsStartable cfg st \<and> threads = [0 .. threadCount cfg - 1]"
  unfolding spawn_def makeslice_Inr [symmetric]
  by (auto split: sum.splits if_splits)

lemma spawn_batch:
  "spawn cfg st = Inl (Fatal s) \<longleftrightarrow> initialize cfg st = Inl (Fatal s)"
  unfolding spawn_def makeslice_def
  by (auto split: sum.splits if_splits)

text \<open>
  Claim C5, amended. The orchestrator ends the process with the message of line 196,
  before any worker is spawned, if and only if the log file and the klog flags were set
  up, the batch size is not 0 and \<open>numberOfUsers % userBatches\<close> is not 0, whatever
  the framework, the token and the thread count. It spawns workers if and only if the log
  file and the flags were set up, the batch size is not 0, the remainder is 0 (that is,
  the batch size divides the number of users), the framework and the token are
  obtained, the arrays of \<open>threadCount\<close> entries are allocated and the wait group counts
  \<open>threadCount\<close>; it then spawns one worker for each thread index from 0 to
  \<open>threadCount - 1\<close>, \<open>threadCount\<close> workers in all. In every other case the process
  ends before a worker is spawned.
\<close>

theorem batch_size_validation:
  "(spawn cfg st = Inl (Fatal ''Please Provide Correct Batches!'') \<longleftrightarrow>
      logReady st \<and> userBatches cfg \<noteq> 0
      \<and> go_rem (numberOfUsers cfg) (userBatches cfg) \<noteq> 0)
   \<and> ((\<exists>threads. spawn cfg st = Inr threads) \<longleftrightarrow>
      logReady st \<and> userBatches cfg \<noteq> 0
      \<and> go_rem (numberOfUsers cfg) (userBatches cfg) = 0
      \<and> clusterReady st \<and> threadsStartable cfg st)
   \<and> (\<forall>threads. spawn cfg st = Inr threads \<longrightarrow>
        threads = [0 .. threadCount cfg - 1] \<and> int (length threads) = threadCount cfg)
   \<and> ((\<exists>a. spawn cfg st = Inl a) \<longleftrightarrow> \<not> (\<exists>threads. spawn cfg st = Inr threads))
   \<and> (go_rem (numberOfUsers cfg) (userBatches cfg) = 0 \<longleftrightarrow>
        userBatches cfg dvd numberOfUsers cfg)"
proof -
  have a: "spawn cfg st = Inl (Fatal ''Please Provide Correct Batches!'') \<longleftrightarrow>
      logReady st \<and> userBatches cfg \<noteq> 0
      \<and> go_rem (numberOfUsers cfg) (userBatches cfg) \<noteq> 0"
    by (simp only: spawn_batch initialize_batch)
  have b: "(\<exists>threads. spawn cfg st = Inr threads) \<longleftrightarrow>
      logReady st \<and> userBatches cfg \<noteq> 0
      \<and> go_rem (numberOfUsers cfg) (userBatches cfg) = 0
      \<and> clusterReady st \<and> threadsStartable cfg st"
    by (auto simp: spawn_Inr initialize_Inr)
  have c: "threads = [0 .. threadCount cfg - 1] \<and> int (length threads) = threadCount cfg"
    if "spawn cfg st = Inr threads" for threads
    using that by (auto simp: spawn_Inr threadsStartable_def)
  have d: "(\<exists>a. spawn cfg st = Inl a) \<longleftrightarrow> \<not> (\<exists>threads. spawn cfg st = Inr threads)"
    by (cases "spawn cfg st") simp_all
  have e: "go_rem (numberOfUsers cfg) (userBatches cfg) = 0 \<longleftrightarrow>
        userBatches cfg dvd numberOfUsers cfg"
    by (rule go_rem_eq_0_iff)
  from a b c d e show ?thesis by blast
qed

text \<open>
  Claim C5 as stated fails. Two threads, four users, batches of two: the batch size
  divides the number of users, but no cluster is reached and the framework cannot be
  created. The process ends at line 206, before a worker is spawned.
\<close>

theorem process_ends_with_divisible_batch:
  "spawn (exampleConfig 2 4 2 True False) noCluster
     = Inl (Fatal ''error creating client-go no cluster'')
   \<and> go_rem (numberOfUsers (exampleConfig 2 4 2 True False))
        (userBatches (exampleConfig 2 4 2 True False)) = 0"
  by code_simp

theorem batch_size_validation_witness:
  "spawn (exampleConfig 2 4 2 True False) exampleStartup = Inr [0, 1]
   \<and> spawn (exampleConfig 2 5 2 True False) exampleStartup
       = Inl (Fatal ''Please Provide Correct Batches!'')"
proof -
  have r: "logReady exampleStartup" "clusterReady exampleStartup"
    "threadsStartable (exampleConfig 2 4 2 True False) exampleStartup"
    "userBatches (exampleConfig 2 4 2 True False) \<noteq> 0"
    "userBatches (exampleConfig 2 5 2 True False) \<noteq> 0"
    "go_rem (numberOfUsers (exampleConfig 2 4 2 True False))
             (userBatches (exampleConfig 2 4 2 True False)) = 0"
    "go_rem (numberOfUsers (exampleConfig 2 5 2 True False))
             (userBatches (exampleConfig 2 5 2 True False)) \<noteq> 0"
    by code_simp+
  have l: "[0 .. threadCount (exampleConfig 2 4 2 True False) - 1] = [0, 1]"
    by code_simp
  from batch_size_validation [of "exampleConfig 2 4 2 True False" exampleStartup]
    batch_size_validation [of "exampleConfig 2 5 2 True False" exampleStartup] r l
  show ?thesis by auto
qed

section \<open>Usernames\<close>













text \<open>
  A machine on which no single allocation of more than \<open>2 ^ 32\<close> elements (32 GiB)
  succeeds keeps the product within \<open>2 ^ 64\<close> in every run that starts a worker.
\<close>

lemma product_within_window:
  assumes "threadsStartable cfg st" and "channelsMade cfg env t"
    and "sliceMemory st \<le> 2 ^ 32" and "chanMemory env t \<le> 2 ^ 32"
  shows "threadCount cfg * numberOfUsers cfg \<le> 2 ^ 64"
proof -
  from assms have "0 \<le> threadCount cfg" "threadCount cfg \<le> 2 ^ 32"
    "0 \<le> numberOfUsers cfg" "numberOfUsers cfg \<le> 2 ^ 32"
    by (simp_all add: threadsStartable_def channelsMade_def)
  then have "threadCount cfg * numberOfUsers cfg \<le> 2 ^ 32 * 2 ^ 32"
    by (intro mult_mono) simp_all
  then show ?thesis by simp
qed



section \<open>A run without failures\<close>

lemma pollLoop_success:
  "firstDone obs = Some run \<Longrightarrow> \<not> SucceededIsFalse run \<Longrightarrow>
     pollLoop cfg a c obs w =
       Inr (True, w\<lparr>AveragePipelineRunTimePerUser := AveragePipelineRunTimePerUser w + RunTime run\<rparr>)"
  by (induction obs) (auto simp: Let_def split: sum.splits if_splits)

lemma pipelineStep_success:
  assumes "pipelineOutcome cfg env t u = Some run" and "\<not> SucceededIsFalse run"
  shows "pipelineStep cfg env t u w =
     Inr (w\<lparr>AveragePipelineRunTimePerUser :=
              AveragePipelineRunTimePerUser w + pipelineRunTime cfg env t u\<rparr>)"
proof -
  from assms(1) have "firstDone (GetComponentPipelineRun env t u (username cfg t u @ ''-component'')
        (username cfg t u @ ''-app'') (username cfg t u @ ''-tenant'')) = Some run"
    by (simp add: pipelineOutcome_def Let_def)
  from pollLoop_success [OF this assms(2)] assms(1) show ?thesis
    by (simp add: pipelineStep_def Let_def pipelineRunTime_def)
qed

lemma pipelineLoop_success:
  assumes "\<forall>u. \<exists>run. pipelineOutcome cfg env t u = Some run \<and> \<not> SucceededIsFalse run"
  shows "forEach (pipelineStep cfg env t) xs w =
     Inr (w\<lparr>AveragePipelineRunTimePerUser :=
              AveragePipelineRunTimePerUser w + sum_list (map (pipelineRunTime cfg env t) xs)\<rparr>)"
proof (induction xs arbitrary: w)
  case Nil
  then show ?case by simp
next
  case (Cons u xs)
  from assms obtain run where "pipelineOutcome cfg env t u = Some run" "\<not> SucceededIsFalse run"
    by blast
  from pipelineStep_success [OF this, of w] Cons.IH show ?case
    by (simp add: add.assoc)
qed

lemma resourceLoop_success:
  assumes "\<forall>u. resourceFailure cfg env t u = None" and "userBatches cfg \<noteq> 0"
    and "waitPipelines cfg"
  shows "forEach (resourceStep cfg env t) xs w =
     Inr (w\<lparr>AverageResourceCreationTimePerUser :=
              AverageResourceCreationTimePerUser w
                + sum_list (map (\<lambda>u. ResourceCreationTime env t u + sleeps cfg env t u) xs),
            chPipelines := chPipelines w @ xs\<rparr>)"
proof (induction xs arbitrary: w)
  case Nil
  then show ?case by simp
next
  case (Cons u xs)
  have "resourceStep cfg env t u w =
        Inr (w\<lparr>AverageResourceCreationTimePerUser :=
                 AverageResourceCreationTimePerUser w
          + (ResourceCreationTime env t u + sleeps cfg env t u),
               chPipelines := chPipelines w @ [u]\<rparr>)"
    using assms by (intro resourceStep_success) auto
  with Cons.IH show ?case by (simp add: add.assoc)
qed

lemma thread_success:
  assumes ok: "everyStageSucceeds cfg env" and wait: "waitPipelines cfg"
    and b: "0 < userBatches cfg" "is_int (userBatches cfg)" "userBatches cfg dvd numberOfUsers cfg"
    and made: "channelsMade cfg env t"
  shows "userJourneyThread cfg env t (newWorker m) = Inr (finishedWorker cfg env t m)"
proof -
  let ?n = "numberOfUsers cfg"
  from made have n: "0 \<le> numberOfUsers cfg" "is_int (numberOfUsers cfg)"
    by (simp_all add: channelsMade_def maxAlloc_def hchanSize_def is_int_def)
  let ?w0 = "(newWorker m)\<lparr>chUsers := [], chPipelines := []\<rparr>"
  from ok have ready: "\<forall>u n. users_Create env t u n = None"
      "\<forall>u i n. wait_ForNamespace env t u i n = None"
    and res: "\<forall>u. resourceFailure cfg env t u = None"
    and pipe: "\<forall>u. \<exists>run. pipelineOutcome cfg env t u = Some run \<and> \<not> SucceededIsFalse run"
    by (simp_all add: everyStageSucceeds_def everyUserReady_def)
  have full: "userBatches cfg * (?n div userBatches cfg) = ?n" using b(3) by simp
  let ?w1 = "?w0\<lparr>chUsers := chUsers ?w0 @ [1 .. userBatches cfg * (?n div userBatches cfg)],
            AverageUserCreationTime := AverageUserCreationTime ?w0
              + sum_list (map (UserCreationTime env t) [1 .. ?n])\<rparr>"
  have s1: "stage1 cfg env t ?w0 = Inr ?w1"
    unfolding stage1_def by (rule stage1_success [OF ready b(1,2) n])
  let ?w2 = "?w1\<lparr>AverageResourceCreationTimePerUser :=
              AverageResourceCreationTimePerUser ?w1
                + sum_list (map (\<lambda>u. ResourceCreationTime env t u + sleeps cfg env t u)
                    (chUsers ?w1)),
            chPipelines := chPipelines ?w1 @ chUsers ?w1\<rparr>"
  have nz: "userBatches cfg \<noteq> 0" using b(1) by simp
  have s2: "stage2 cfg env t ?w1 = Inr ?w2"
    unfolding stage2_def by (rule resourceLoop_success [OF res nz wait])
  let ?w3 = "?w2\<lparr>AveragePipelineRunTimePerUser :=
              AveragePipelineRunTimePerUser ?w2
                + sum_list (map (pipelineRunTime cfg env t) (chPipelines ?w2))\<rparr>"
  have s3: "stage3 cfg env t ?w2 = Inr ?w3"
    unfolding stage3_def by (rule pipelineLoop_success [OF pipe])
  have "?w3 = finishedWorker cfg env t m"
    by (simp add: finishedWorker_def newWorker_def full)
  moreover have "userJourneyThread cfg env t (newWorker m) = Inr ?w3"
  proof -
    have mk: "makechan (chanMemory env t) (numberOfUsers cfg) = Inr ()"
      using made by (simp only: makechan_Inr)
    show ?thesis
      by (simp only: userJourneyThread_def mk s1 s2 s3 sum.case wait if_True)
  qed
  ultimately show ?thesis by simp
qed


lemma runThreads_success:
  assumes ok: "everyStageSucceeds cfg env" and wait: "waitPipelines cfg"
    and b: "0 < userBatches cfg" "is_int (userBatches cfg)" "userBatches cfg dvd numberOfUsers cfg"
  shows "\<forall>t \<in> set ts. channelsMade cfg env t \<Longrightarrow>
     runThreads cfg env ts m = Inr (map (\<lambda>t. finishedWorker cfg env t m) ts)"
proof (induction ts)
  case Nil
  then show ?case by simp
next
  case (Cons t ts)
  have "errorOccurredMap (finishedWorker cfg env t m) = m"
    by (simp add: finishedWorker_def)
  moreover from Cons.prems have "channelsMade cfg env t" by simp
  moreover from Cons.prems Cons.IH
  have "runThreads cfg env ts m = Inr (map (\<lambda>t. finishedWorker cfg env t m) ts)" by simp
  ultimately show ?case using thread_success [OF ok wait b, of t m] by simp
qed

lemma wholeSeconds_pos:
  assumes "0 \<le> d"
  shows "0 \<le> wholeSeconds d" and "0 < wholeSeconds d \<longleftrightarrow> 1000000000 \<le> d"
proof -
  have eq: "wholeSeconds d = d div 1000000000"
    using assms by (cases "d = 0") (simp_all add: wholeSeconds_def)
  show "0 \<le> wholeSeconds d" using assms by (simp add: eq)
  show "0 < wholeSeconds d \<longleftrightarrow> 1000000000 \<le> d"
    by (simp add: eq pos_imp_zdiv_pos_iff)
qed

lemma average_of_two:
  assumes "0 \<le> a" "0 \<le> b"
  shows "\<exists>x. averageDurationFromArray [a, b] 8 = Some x
     \<and> (if 1000000000 \<le> a \<or> 1000000000 \<le> b then 0 < x else x = 0)"
proof -
  define x where "x = real_of_int (wholeSeconds a + wholeSeconds b) / 8"
  have avg: "averageDurationFromArray [a, b] 8 = Some x"
    by (simp add: averageDurationFromArray_def x_def)
  have pos: "0 < x \<longleftrightarrow> 1000000000 \<le> a \<or> 1000000000 \<le> b"
  proof -
    have "0 < x \<longleftrightarrow> 0 < real_of_int (wholeSeconds a + wholeSeconds b)"
      unfolding x_def by (simp only: zero_less_divide_iff) simp
    also have "\<dots> \<longleftrightarrow> 0 < wholeSeconds a + wholeSeconds b"
      by (rule of_int_0_less_iff)
    also have "\<dots> \<longleftrightarrow> 1000000000 \<le> a \<or> 1000000000 \<le> b"
      using wholeSeconds_pos [OF assms(1)] wholeSeconds_pos [OF assms(2)] by linarith
    finally show ?thesis .
  qed
  have "0 \<le> wholeSeconds a + wholeSeconds b"
    using wholeSeconds_pos(1) [OF assms(1)] wholeSeconds_pos(1) [OF assms(2)] by simp
  then have "0 \<le> x" by (simp add: x_def)
  with pos have "if 1000000000 \<le> a \<or> 1000000000 \<le> b then 0 < x else x = 0"
    by auto
  with avg show ?thesis by blast
qed

lemma average_of_two_slept:
  assumes "4000000000 \<le> a" "4000000000 \<le> b"
  shows "\<exists>x. averageDurationFromArray [a, b] 8 = Some x \<and> 1 \<le> x"
proof -
  define x where "x = real_of_int (wholeSeconds a + wholeSeconds b) / 8"
  have avg: "averageDurationFromArray [a, b] 8 = Some x"
    by (simp add: averageDurationFromArray_def x_def)
  have "4 \<le> wholeSeconds d" if "4000000000 \<le> d" for d
  proof -
    from that have "wholeSeconds d = d div 1000000000" by (simp add: wholeSeconds_def)
    moreover have "4000000000 div 1000000000 \<le> d div (1000000000 :: int)"
      using that by (intro zdiv_mono1) simp_all
    ultimately show ?thesis by simp
  qed
  from this [OF assms(1)] this [OF assms(2)]
  have "8 \<le> wholeSeconds a + wholeSeconds b" by simp
  then have "8 \<le> real_of_int (wholeSeconds a + wholeSeconds b)" by linarith
  then have "1 \<le> x" by (simp add: x_def)
  with avg show ?thesis by blast
qed

text \<open>In the scenario of batches of two, users 2 and 4 sleep twice each: the sleeps put
  four seconds into the resource time of a thread.\<close>

lemma resource_total_slept:
  assumes "userBatches cfg = 2" and "\<forall>u. 0 < ResourceCreationTime env t u"
  shows "4000000000 \<le>
     sum_list (map (\<lambda>u. ResourceCreationTime env t u + sleeps cfg env t u) [1 .. 4])"
proof -
  have l: "[1 .. 4 :: int] = [1, 2, 3, 4]" "[1 .. 2 :: int] = [1, 2]" "[3 .. 4 :: int] = [3, 4]"
    by code_simp+
  have lo: "go_int (go_int 0 + 1) = 1" "go_int (go_int 2 + 1) = 3"
    by (simp_all add: go_int_def)
  have r: "go_rem 1 2 \<noteq> 0" "go_rem 2 2 = 0" "go_rem 3 2 \<noteq> 0" "go_rem 4 2 = 0"
    by (simp_all add: go_rem_def)
  have s: "sleeps cfg env t 1 = 0" "2000000000 \<le> sleeps cfg env t 2"
    "sleeps cfg env t 3 = 0" "2000000000 \<le> sleeps cfg env t 4"
    by (simp_all add: sleeps_def assms(1) r lo l)
  from assms(2) have "0 < ResourceCreationTime env t 1" "0 < ResourceCreationTime env t 2"
    "0 < ResourceCreationTime env t 3" "0 < ResourceCreationTime env t 4"
    by simp_all
  with s show ?thesis by (simp add: l)
qed

lemma sum_list_pos: "\<forall>u. 0 < f u \<Longrightarrow> 0 \<le> sum_list (map f (xs :: int list))"
  for f :: "int \<Rightarrow> int"
  by (induction xs) (simp_all add: add_nonneg_nonneg less_imp_le)

text \<open>
  Claim C4, amended. Two threads, four users per thread, batches of two, pipelines
  awaited; start-up succeeds, the arrays and the channels are allocated, every attempt
  of every stage succeeds, and the durations are positive. The run completes, and the
  aggregate reports 0 failures for each of the three stages and 8 users. The average
  resource creation time is at least 1: the sleeps of lines 478 to 483 alone put four
  seconds into each thread's total. The average user creation time and the average
  pipeline time are each greater than 0 when the durations accumulated for that stage by
  one of the two threads reach one second, and 0 otherwise (each thread's total is cut to
  whole seconds before the division).
\<close>

theorem two_threads_four_users_all_succeed:
  assumes cfg: "threadCount cfg = 2" "numberOfUsers cfg = 4" "userBatches cfg = 2"
      "waitPipelines cfg"
    and st: "healthy st" "threadsStartable cfg st"
    and made: "channelsMade cfg env 0" "channelsMade cfg env 1"
    and ok: "everyStageSucceeds cfg env"
    and pos: "\<forall>t u. 0 < UserCreationTime env t u" "\<forall>t u. 0 < ResourceCreationTime env t u"
      "\<forall>t u. 0 < pipelineRunTime cfg env t u"
  shows "\<exists>ws ld. runSetup cfg st env = Inr (ws, ld)
     \<and> UserCreationFailureCount ld = 0 \<and> ResourceCreationFailureCount ld = 0
     \<and> PipelineRunFailureCount ld = 0
     \<and> NumberOfUsers ld = 8
     \<and> (\<exists>x. AverageTimeToSpinUpUsers ld = Some x \<and>
           (if 1000000000 \<le> sum_list (map (UserCreationTime env 0) [1 .. 4])
               \<or> 1000000000 \<le> sum_list (map (UserCreationTime env 1) [1 .. 4])
            then 0 < x else x = 0))
     \<and> (\<exists>x. AverageTimeToCreateResources ld = Some x \<and> 1 \<le> x)
     \<and> (\<exists>x. AverageTimeToRunPipelines ld = Some x \<and>
           (if 1000000000 \<le> sum_list (map (pipelineRunTime cfg env 0) [1 .. 4])
               \<or> 1000000000 \<le> sum_list (map (pipelineRunTime cfg env 1) [1 .. 4])
            then 0 < x else x = 0))"
proof -
  have b: "0 < userBatches cfg" "is_int (userBatches cfg)" "userBatches cfg dvd numberOfUsers cfg"
    by (simp_all add: cfg is_int_def)
  have rem: "go_rem (numberOfUsers cfg) (userBatches cfg) = 0"
    using b(3) by (simp add: go_rem_eq_0_iff)
  have nz: "userBatches cfg \<noteq> 0" using b(1) by simp
  have threads: "[0 .. threadCount cfg - 1] = [0, 1]"
    unfolding cfg by code_simp
  have "initialize cfg st = Inr ()"
    using initialize_healthy [OF st(1) nz] rem by simp
  then have sp: "spawn cfg st = Inr [0, 1]"
    using st(2) threads by (simp add: spawn_Inr)
  have wg: "\<not> wgCounter (threadCount cfg) < threadCount cfg"
    by (simp add: cfg wgCounter_def)
  have "\<forall>t \<in> set [0, 1]. channelsMade cfg env t" using made by simp
  note runThreads_success [OF ok cfg(4) b this, of Map.empty]
  with sp wg have run: "runSetup cfg st env =
      Inr ([finishedWorker cfg env 0 Map.empty, finishedWorker cfg env 1 Map.empty],
           report cfg [finishedWorker cfg env 0 Map.empty, finishedWorker cfg env 1 Map.empty])"
    by (simp add: runSetup_def)
  let ?ws = "[finishedWorker cfg env 0 Map.empty, finishedWorker cfg env 1 Map.empty]"
  have count: "go_int 8 = 8"
    by (simp add: go_int_def)
  have f: "UserCreationFailureCount (report cfg ?ws) = 0"
    "ResourceCreationFailureCount (report cfg ?ws) = 0"
    "PipelineRunFailureCount (report cfg ?ws) = 0"
    "NumberOfUsers (report cfg ?ws) = 8"
    by (simp_all add: report_def Let_def count sumFromArray_def finishedWorker_def cfg)
  have a1: "AverageTimeToSpinUpUsers (report cfg ?ws) =
      averageDurationFromArray [sum_list (map (UserCreationTime env 0) [1 .. 4]),
         sum_list (map (UserCreationTime env 1) [1 .. 4])] 8"
    by (simp add: report_def Let_def count finishedWorker_def cfg)
  have a2: "AverageTimeToCreateResources (report cfg ?ws) =
      averageDurationFromArray
        [sum_list (map (\<lambda>u. ResourceCreationTime env 0 u + sleeps cfg env 0 u) [1 .. 4]),
         sum_list (map (\<lambda>u. ResourceCreationTime env 1 u + sleeps cfg env 1 u) [1 .. 4])] 8"
    by (simp add: report_def Let_def count finishedWorker_def cfg)
  have a3: "AverageTimeToRunPipelines (report cfg ?ws) =
      averageDurationFromArray [sum_list (map (pipelineRunTime cfg env 0) [1 .. 4]),
         sum_list (map (pipelineRunTime cfg env 1) [1 .. 4])] 8"
    by (simp add: report_def Let_def count finishedWorker_def cfg)
  note p1 = average_of_two [OF sum_list_pos sum_list_pos,
      of "UserCreationTime env 0" "UserCreationTime env 1" "[1 .. 4]" "[1 .. 4]"]
  have r0: "\<forall>u. 0 < ResourceCreationTime env 0 u" and r1: "\<forall>u. 0 < ResourceCreationTime env 1 u"
    using pos(2) by simp_all
  note p2 = average_of_two_slept [OF resource_total_slept [OF cfg(3) r0]
      resource_total_slept [OF cfg(3) r1]]
  note p3 = average_of_two [OF sum_list_pos sum_list_pos,
      of "pipelineRunTime cfg env 0" "pipelineRunTime cfg env 1" "[1 .. 4]" "[1 .. 4]"]
  from pos p1 have q1:
    "\<exists>x. AverageTimeToSpinUpUsers (report cfg ?ws) = Some x \<and>
           (if 1000000000 \<le> sum_list (map (UserCreationTime env 0) [1 .. 4])
               \<or> 1000000000 \<le> sum_list (map (UserCreationTime env 1) [1 .. 4])
            then 0 < x else x = 0)"
    unfolding a1 by blast
  from p2 have q2:
    "\<exists>x. AverageTimeToCreateResources (report cfg ?ws) = Some x \<and> 1 \<le> x"
    unfolding a2 by blast
  from pos p3 have q3:
    "\<exists>x. AverageTimeToRunPipelines (report cfg ?ws) = Some x \<and>
           (if 1000000000 \<le> sum_list (map (pipelineRunTime cfg env 0) [1 .. 4])
               \<or> 1000000000 \<le> sum_list (map (pipelineRunTime cfg env 1) [1 .. 4])
            then 0 < x else x = 0)"
    unfolding a3 by blast
  from run f q1 q2 q3 show ?thesis by blast
qed

text \<open>
  Claim C4 as stated fails. In the same scenario with 200 ms per user creation, each
  thread accumulates 0.8 s, which \<open>averageDurationFromArray\<close> cuts to 0 whole seconds:
  the run has no failure and 8 users, and the average user creation time reported is 0.
\<close>

theorem average_truncates_to_zero:
  "map_sum id (\<lambda>r. (UserCreationFailureCount (snd r), ResourceCreationFailureCount (snd r),
        PipelineRunFailureCount (snd r), NumberOfUsers (snd r), AverageTimeToSpinUpUsers (snd r)))
     (runSetup (exampleConfig 2 4 2 True False) exampleStartup
        (clusterWithTimes 200000000 2500000000 90000000000))
   = Inr (0, 0, 0, 8, Some 0)
   \<and> UserCreationTime (clusterWithTimes 200000000 2500000000 90000000000) 0 1 = 200000000"
  by code_simp

text \<open>
  The same cut in stage 3: with pipeline runs of 100 ms, each thread accumulates 0.4 s
  and the average pipeline time reported is 0. With 1 ns outside the sleeps for each
  user, the average resource creation time is still 1.
\<close>

lemma pipeline_average_is_cut_too:
  "map_sum id (\<lambda>r. (AverageTimeToCreateResources (snd r), AverageTimeToRunPipelines (snd r)))
     (runSetup (exampleConfig 2 4 2 True False) exampleStartup
        (clusterWithTimes 300000000 1 100000000))
   = Inr (Some 1, Some 0)"
  by code_simp

lemma clusterWithTimes_succeeds: "everyStageSucceeds cfg (clusterWithTimes a b c)"
  by (simp add: everyStageSucceeds_def everyUserReady_def resourceFailure_def Let_def
        pipelineOutcome_def clusterWithTimes_def exampleCollab_def)

theorem two_threads_four_users_all_succeed_witness:
  "\<exists>ws ld. runSetup (exampleConfig 2 4 2 True False) exampleStartup
        (clusterWithTimes 300000000 2500000000 100000000) = Inr (ws, ld)
     \<and> UserCreationFailureCount ld = 0 \<and> ResourceCreationFailureCount ld = 0
     \<and> PipelineRunFailureCount ld = 0 \<and> NumberOfUsers ld = 8
     \<and> (\<exists>x. AverageTimeToSpinUpUsers ld = Some x \<and> 0 < x)
     \<and> (\<exists>x. AverageTimeToCreateResources ld = Some x \<and> 1 \<le> x)
     \<and> AverageTimeToRunPipelines ld = Some 0"
proof -
  let ?c = "exampleConfig 2 4 2 True False"
  let ?e = "clusterWithTimes 300000000 2500000000 100000000"
  have cfg: "threadCount ?c = 2" "numberOfUsers ?c = 4" "userBatches ?c = 2" "waitPipelines ?c"
    by (simp_all add: exampleConfig_def)
  have st: "healthy exampleStartup" "threadsStartable ?c exampleStartup"
    by code_simp+
  have made: "channelsMade ?c ?e 0" "channelsMade ?c ?e 1"
    by code_simp+
  have ok: "everyStageSucceeds ?c ?e" by (rule clusterWithTimes_succeeds)
  have pos: "\<forall>t u. 0 < UserCreationTime ?e t u" "\<forall>t u. 0 < ResourceCreationTime ?e t u"
    "\<forall>t u. 0 < pipelineRunTime ?c ?e t u"
    by (simp_all add: clusterWithTimes_def pipelineRunTime_def pipelineOutcome_def Let_def)
  have sums: "sum_list (map (UserCreationTime ?e 0) [1 .. 4]) = 1200000000"
    "sum_list (map (pipelineRunTime ?c ?e 0) [1 .. 4]) = 400000000"
    "sum_list (map (pipelineRunTime ?c ?e 1) [1 .. 4]) = 400000000"
    by code_simp+
  from two_threads_four_users_all_succeed [OF cfg st made ok pos] sums
  show ?thesis by simp
qed

end
